theory Spec2Isabelle
  imports Complex_Main "HOL-Library.AList"
begin

section \<open>Strings\<close>

text \<open>
  A JavaScript string is a sequence of UTF-16 code units; \<open>length\<close>, \<open>slice\<close>,
  \<open>charAt\<close> and the regular expressions of the sources (none has the \<open>u\<close> flag) all
  count and match code units. A string is therefore the list of its code units, each a
  natural number (below \<open>65536\<close> in JavaScript; no arithmetic here depends on the bound).
  \<open>str\<close> reads an ASCII literal of this file as such a string.
\<close>

type_synonym jsstring = "nat list"

definition str :: "string \<Rightarrow> jsstring" where
  "str s = map of_char s"

text \<open>
  The class \<open>\s\<close> of a JavaScript regular expression, which is also the set of code
  units that \<open>String.prototype.trim\<close> removes (WhiteSpace and LineTerminator).
\<close>

definition isWS :: "nat \<Rightarrow> bool" where
  "isWS c \<longleftrightarrow>
     c \<in> {0x09, 0x0A, 0x0B, 0x0C, 0x0D, 0x20, 0xA0, 0x1680, 0x2028, 0x2029, 0x202F, 0x205F, 0x3000, 0xFEFF}
     \<or> (0x2000 \<le> c \<and> c \<le> 0x200A)"

definition trim :: "jsstring \<Rightarrow> jsstring" where
  "trim s = rev (dropWhile isWS (rev (dropWhile isWS s)))"

lemma dropWhile_shorter [termination_simp]: "length (dropWhile p xs) < Suc (length xs)"
  by (simp add: le_imp_less_Suc length_dropWhile_le)

text \<open>
  \<open>s.replace(/[C]+/g, r)\<close> for a character class \<open>C\<close>: every maximal run of code units
  of the class is replaced by \<open>r\<close>.
\<close>

fun replaceRuns :: "(nat \<Rightarrow> bool) \<Rightarrow> jsstring \<Rightarrow> jsstring \<Rightarrow> jsstring" where
  "replaceRuns p r [] = []"
| "replaceRuns p r (c # cs) =
     (if p c then r @ replaceRuns p r (dropWhile p cs) else c # replaceRuns p r cs)"

text \<open>
  \<open>s.split(/[C]+/)\<close>: the pieces between the maximal runs of the class; a run at the
  start or at the end leaves an empty piece there, and the empty string splits into one
  empty piece.
\<close>

fun splitRuns :: "(nat \<Rightarrow> bool) \<Rightarrow> jsstring \<Rightarrow> jsstring list" where
  "splitRuns p [] = [[]]"
| "splitRuns p (c # cs) =
     (if p c then [] # splitRuns p (dropWhile p cs)
      else (case splitRuns p cs of [] \<Rightarrow> [[c]] | w # ws \<Rightarrow> (c # w) # ws))"

text \<open>\<open>ws.join(sep)\<close>\<close>

fun joinWith :: "jsstring \<Rightarrow> jsstring list \<Rightarrow> jsstring" where
  "joinWith sep [] = []"
| "joinWith sep [w] = w"
| "joinWith sep (w # v # ws) = w @ sep @ joinWith sep (v # ws)"

text \<open>
  \<open>toUpperCase\<close> and \<open>toLowerCase\<close> belong to the JavaScript runtime. They are modelled
  code unit by code unit, exactly as ECMAScript defines them on U+0000..U+00FF (the
  Unicode case mappings, with the special casing of U+00DF, the sharp s, whose upper case
  is the two letters SS); a code unit above U+00FF is left unchanged. Statements about
  all strings that depend on the case mappings are made for code units up to U+00FF.
\<close>

definition upperCU :: "nat \<Rightarrow> jsstring" where
  "upperCU c =
     (if 0x61 \<le> c \<and> c \<le> 0x7A then [c - 0x20]
      else if c = 0xB5 then [0x39C]
      else if c = 0xDF then [0x53, 0x53]
      else if 0xE0 \<le> c \<and> c \<le> 0xFE \<and> c \<noteq> 0xF7 then [c - 0x20]
      else if c = 0xFF then [0x178]
      else [c])"

definition lowerCU :: "nat \<Rightarrow> nat" where
  "lowerCU c =
     (if 0x41 \<le> c \<and> c \<le> 0x5A then c + 0x20
      else if 0xC0 \<le> c \<and> c \<le> 0xDE \<and> c \<noteq> 0xD7 then c + 0x20
      else c)"

definition toUpperCase :: "jsstring \<Rightarrow> jsstring" where
  "toUpperCase s = concat (map upperCU s)"

definition toLowerCase :: "jsstring \<Rightarrow> jsstring" where
  "toLowerCase s = map lowerCU s"

subsection \<open>titleCase and sanitizeFilename\<close>

text \<open>
  \<^verbatim>\<open>function titleCase(s) {
    s = (s || "").trim();
    if (!s) return "";
    return s.split(/\s+/).map(x => x.charAt(0).toUpperCase() + x.slice(1).toLowerCase()).join(" ");
  }\<close>
  (\<open>src/unnamed/part_000\<close>, line 833). \<open>capitalize\<close> is the arrow function. The copy in
  \<open>src/functions/telegram.js\<close> (line 333) writes \<open>x[0]?.toUpperCase()\<close> for
  \<open>x.charAt(0).toUpperCase()\<close>; the two agree on every non-empty piece, and the pieces of
  a trimmed non-empty string are non-empty (lemma \<open>splitRuns_trimmed\<close> below).
\<close>

definition capitalize :: "jsstring \<Rightarrow> jsstring" where
  "capitalize x = toUpperCase (take 1 x) @ toLowerCase (drop 1 x)"

definition titleCase :: "jsstring \<Rightarrow> jsstring" where
  "titleCase s =
     (let t = trim s in
      if t = [] then [] else joinWith [0x20] (map capitalize (splitRuns isWS t)))"

text \<open>
  \<^verbatim>\<open>function sanitizeFilename(name) {
    name = (name || "").trim().replace(/[\\/:*?"<>|]+/g, "");
    name = name.replace(/\s+/g, " ");
    if (!name) name = "output";
    if (name.length > 80) name = name.slice(0, 80);
    return name;
  }\<close>
  (\<open>src/unnamed/part_000\<close>, line 825; \<open>src/functions/telegram.js\<close>, line 339, is the same
  function in three lines).
\<close>

definition isForbidden :: "nat \<Rightarrow> bool" where
  "isForbidden c \<longleftrightarrow> c \<in> {0x5C, 0x2F, 0x3A, 0x2A, 0x3F, 0x22, 0x3C, 0x3E, 0x7C}"

definition sanitizeFilename :: "jsstring \<Rightarrow> jsstring" where
  "sanitizeFilename name =
     (let n1 = replaceRuns isForbidden [] (trim name);
          n2 = replaceRuns isWS [0x20] n1;
          n3 = (if n2 = [] then str ''output'' else n2)
      in if length n3 > 80 then take 80 n3 else n3)"





section \<open>The descriptor\<close>

text \<open>
  The descriptor is what \<open>JSON.parse\<close> returns: a tree without sharing, which
  \<open>structuredClone\<close> copies as it is. An object is the list of its members in key
  order, read with \<open>map_of\<close> and written with \<open>AList.update\<close> (which keeps an existing
  key in its place and appends a new one, as a JavaScript object does). A number is a
  rational: every finite double is one, and the pipeline only ever writes a string
  length.
\<close>

datatype json =
  JNull | JBool bool | JNum rat | JStr jsstring | JArr "json list" | JObj "(jsstring \<times> json) list"

fun truthy :: "json \<Rightarrow> bool" where
  "truthy JNull = False"
| "truthy (JBool b) = b"
| "truthy (JNum n) = (n \<noteq> 0)"
| "truthy (JStr s) = (s \<noteq> [])"
| "truthy (JArr xs) = True"
| "truthy (JObj kvs) = True"

text \<open>\<open>v && typeof v === "object"\<close>: an object or an array (\<open>null\<close> is not truthy).\<close>

fun isObjectValue :: "json \<Rightarrow> bool" where
  "isObjectValue (JArr xs) = True"
| "isObjectValue (JObj kvs) = True"
| "isObjectValue v = False"

text \<open>
  \<open>v[k]\<close> for a key that is neither an array index nor \<open>length\<close> nor a method of a
  prototype, as every key is that the pipeline reads by name: the member of an object,
  and \<open>undefined\<close> (\<open>None\<close>) on an array, a string, a number and a boolean. On \<open>null\<close>
  the read throws; the callers below test for \<open>JNull\<close> first.
\<close>

fun getProp :: "json \<Rightarrow> jsstring \<Rightarrow> json option" where
  "getProp (JObj kvs) k = map_of kvs k"
| "getProp v k = None"

text \<open>
  \<^verbatim>\<open>function updateIntervals(layer, newText) {
    for (const k of ["textTextColor", "textTextFont"]) {
      const block = layer[k];
      if (block && typeof block === "object") {
        for (const intervalKey of Object.keys(block)) {
          const interval = block[intervalKey];
          if (interval && typeof interval === "object" && "textsIntervalsEnd" in interval) {
            interval.textsIntervalsEnd = newText.length;
          }
        }
      }
    }
  }\<close>
  (\<open>src/unnamed/part_000\<close>, line 811; \<open>src/functions/telegram.js\<close>, line 319, reads
  \<open>layer?.[k]\<close>, the same on a layer that is not \<open>null\<close>). The mutation through the
  reference \<open>interval\<close> is a write of the updated interval back into its block, and of
  the block back into the layer. \<open>setIntervalEnd\<close> is the body of the inner loop,
  \<open>updateBlock\<close> the inner loop (over the keys of an object, or over the elements of an
  array, whose keys are its indices), \<open>intervalsOf\<close> the values \<open>block[intervalKey]\<close> the
  inner loop visits.
\<close>

definition setIntervalEnd :: "nat \<Rightarrow> json \<Rightarrow> json" where
  "setIntervalEnd n interval =
     (case interval of
        JObj f \<Rightarrow>
          if str ''textsIntervalsEnd'' \<in> fst ` set f
          then JObj (AList.update (str ''textsIntervalsEnd'') (JNum (of_nat n)) f)
          else interval
      | _ \<Rightarrow> interval)"

fun updateBlock :: "nat \<Rightarrow> json \<Rightarrow> json" where
  "updateBlock n (JObj kvs) =
     JObj (fold (\<lambda>intervalKey b.
                   case map_of b intervalKey of
                     Some interval \<Rightarrow> AList.update intervalKey (setIntervalEnd n interval) b
                   | None \<Rightarrow> b)
                (map fst kvs) kvs)"
| "updateBlock n (JArr xs) = JArr (map (setIntervalEnd n) xs)"
| "updateBlock n v = v"

fun intervalsOf :: "json \<Rightarrow> json list" where
  "intervalsOf (JObj kvs) = map (\<lambda>k. the (map_of kvs k)) (map fst kvs)"
| "intervalsOf (JArr xs) = xs"
| "intervalsOf v = []"

definition hasIntervalEnd :: "json \<Rightarrow> bool" where
  "hasIntervalEnd interval =
     (case interval of JObj f \<Rightarrow> str ''textsIntervalsEnd'' \<in> fst ` set f | _ \<Rightarrow> False)"

definition auxKeys :: "jsstring list" where
  "auxKeys = [str ''textTextColor'', str ''textTextFont'']"

definition updateIntervals :: "json \<Rightarrow> jsstring \<Rightarrow> json" where
  "updateIntervals layer newText =
     fold (\<lambda>k l.
             case l of
               JObj kvs \<Rightarrow>
                 (case map_of kvs k of
                    Some block \<Rightarrow>
                      if truthy block \<and> isObjectValue block
                      then JObj (AList.update k (updateBlock (length newText) block) kvs)
                      else l
                  | None \<Rightarrow> l)
             | _ \<Rightarrow> l)
          auxKeys layer"

section \<open>The pipeline\<close>

text \<open>
  What the code throws, by the place that throws it. The sources throw plain \<open>Error\<close>
  objects with a message; the specification sorts them into kinds, which
  \<open>isTemplateFetchError\<close> and \<open>isFormatError\<close> follow (section 7).
\<close>

datatype error =
    UrlNotSet              \<comment> \<open>\<open>Error("TEMPLATE_URL not set")\<close>\<close>
  | FetchThrew             \<comment> \<open>\<open>fetch\<close> rejected: the source is unreachable\<close>
  | FetchStatus nat        \<comment> \<open>\<open>Error("Failed to fetch template: " + res.status)\<close>\<close>
  | UnzipThrew             \<comment> \<open>\<open>unzipSync\<close> threw\<close>
  | MissingDescriptor      \<comment> \<open>\<open>Error("Template missing data.plab")\<close>\<close>
  | ParseThrew             \<comment> \<open>\<open>JSON.parse\<close> threw\<close>
  | MissingLayer jsstring  \<comment> \<open>\<open>Error("Template missing layer " + k)\<close>\<close>
  | TypeError              \<comment> \<open>a property read on \<open>null\<close> or \<open>undefined\<close>, or (the files are
                               modules, so strict) a property written on a primitive\<close>
  | SinkThrew              \<comment> \<open>the progress callback rejected\<close>

fun isTemplateFetchError :: "error \<Rightarrow> bool" where
  "isTemplateFetchError UrlNotSet = True"
| "isTemplateFetchError FetchThrew = True"
| "isTemplateFetchError (FetchStatus s) = True"
| "isTemplateFetchError e = False"


text \<open>
  The messages passed to the progress callback: \<open>Downloading template\<close>,
  \<open>Generating i/N\<close> and \<open>Packing outputs.zip\<close>.
\<close>

datatype progress = Downloading | Generating nat nat | Packing

record options =
  count :: nat
  firstMode :: jsstring
  fixedFirst :: jsstring
  lastMode :: jsstring
  fixedLast :: jsstring
  text2 :: jsstring

record env =
  TEMPLATE_URL :: "jsstring option"

record 'b response =
  ok :: bool
  status :: nat
  body :: 'b

text \<open>
  The collaborators of the pipeline, none of them code of the repository: \<open>fetch\<close>
  (\<open>None\<close> when it rejects), fflate's \<open>unzipSync\<close> (\<open>None\<close> when it throws) and
  \<open>zipSync\<close> at level 6, \<open>JSON.parse\<close> after \<open>TextDecoder.decode\<close> (\<open>None\<close> when it
  throws), \<open>TextEncoder.encode\<close> after \<open>JSON.stringify\<close>, \<open>Math.random\<close> (its
  successive results, as exact rationals; the rounding of the double product in
  \<open>Math.random() * n\<close> is not modelled) and the progress callback (whether its \<open>k\<close>-th
  invocation, with the given message, resolves). \<open>'b\<close> is the type of byte buffers.
\<close>

record 'b world =
  fetch :: "jsstring \<Rightarrow> 'b response option"
  unzipSync :: "'b \<Rightarrow> (jsstring \<times> 'b) list option"
  zipSync :: "(jsstring \<times> 'b) list \<Rightarrow> 'b"
  jsonParse :: "'b \<Rightarrow> json option"
  jsonStringify :: "json \<Rightarrow> 'b"
  mathRandom :: "nat \<Rightarrow> rat"
  progressCb :: "nat \<Rightarrow> progress \<Rightarrow> bool"

subsection \<open>The record generator\<close>

text \<open>\<open>FIRST_NAMES\<close> and \<open>LAST_NAMES\<close> of \<open>src/unnamed/part_000\<close>, lines 773 and 789.\<close>

definition FIRST_NAMES :: "jsstring list" where
  "FIRST_NAMES = map str [
    ''Ahsan'', ''Arafat'', ''Arif'', ''Asif'', ''Aziz'', ''Fahim'', ''Farhan'', ''Faysal'',
    ''Hasan'', ''Imran'', ''Ismail'', ''Jahid'', ''Jamal'', ''Kamal'', ''Mahmud'',
    ''Mehedi'', ''Moin'', ''Monir'', ''Naim'', ''Nayeem'', ''Rafi'', ''Rahim'', ''Raihan'',
    ''Rashed'', ''Rifat'', ''Ridoy'', ''Sabbir'', ''Saif'', ''Sajid'', ''Sakib'',
    ''Salman'', ''Sami'', ''Shafi'', ''Shahriar'', ''Shakil'', ''Tanvir'', ''Tareq'',
    ''Yasin'', ''Zahid'', ''Zubair'', ''Nafis'', ''Fardin'', ''Tahmid'', ''Muntasir'',
    ''Aminul'', ''Shihab'', ''Rakib'', ''Shuvo'', ''Sohel'', ''Mahfuz'', ''Anwar'',
    ''Ruhul'', ''Bashir'', ''Kabir'', ''Ibrahim'', ''Hridoy'', ''Parvez'', ''Sifat'',
    ''Towhid'', ''Shadman'', ''Ayesha'', ''Farzana'', ''Faria'', ''Fariha'', ''Jannat'',
    ''Jui'', ''Lamia'', ''Maliha'', ''Mim'', ''Mitu'', ''Nafisa'', ''Nusrat'', ''Purnima'',
    ''Raisa'', ''Rima'', ''Ritu'', ''Sabina'', ''Sadia'', ''Sanjida'', ''Shirin'',
    ''Sumaiya'', ''Tahmina'', ''Tanjila'', ''Tania'', ''Zannat'', ''Jahanara'', ''Mariya'',
    ''Muna'', ''Rukaiya'', ''Sultana'', ''Sharmin'', ''Sabrina'', ''Nabila'', ''Nowrin'',
    ''Umme'', ''Rabeya'', ''Moushumi'', ''Taslima'', ''Afsana'', ''Ishika'', ''Tanisha'',
    ''Anannya'', ''Sreya'', ''Puja'', ''Madhuri'', ''Nandini'', ''Rituparna'', ''Oishi'',
    ''Anik'', ''Aritra'', ''Arpan'', ''Debashish'', ''Dip'', ''Niloy'', ''Pranto'',
    ''Rupok'', ''Sourav'', ''Subrata'', ''Rony'', ''Joy'', ''Sohan'', ''Ayon'', ''Pritom'',
    ''Raiyan'', ''Sanjit'']"

definition LAST_NAMES :: "jsstring list" where
  "LAST_NAMES = map str [
    ''Ahmed'', ''Akter'', ''Ali'', ''Amin'', ''Arefin'', ''Bhuiyan'', ''Chowdhury'',
    ''Faruque'', ''Haque'', ''Hasan'', ''Hossain'', ''Islam'', ''Jahan'', ''Khan'',
    ''Mahmood'', ''Miah'', ''Mollah'', ''Mostafa'', ''Rahman'', ''Rashid'', ''Sarker'',
    ''Siddique'', ''Sikder'', ''Sultana'', ''Uddin'', ''Talukder'', ''Sheikh'', ''Matin'',
    ''Karim'', ''Kazi'', ''Sayeed'', ''Nizam'', ''Alam'', ''Kabir'', ''Mamun'', ''Shah'',
    ''Naser'', ''Tasnim'', ''Das'', ''Dey'', ''Roy'', ''Saha'', ''Sarkar'', ''Mondal'',
    ''Paul'', ''Biswas'', ''Barman'', ''Ghosh'', ''Chakraborty'', ''Bhattacharya'',
    ''Banerjee'', ''Mitra'', ''Sen'', ''Deb'', ''Datta'', ''Pal'', ''Majumder'']"

text \<open>\<open>String(n)\<close> for a natural number (below \<open>10^21\<close>, where JavaScript still writes all digits).\<close>

fun decimal :: "nat \<Rightarrow> jsstring" where
  "decimal n = (if n < 10 then [0x30 + n] else decimal (n div 10) @ [0x30 + n mod 10])"

declare decimal.simps [simp del]

definition numberToString :: "int \<Rightarrow> jsstring" where
  "numberToString i = (if i < 0 then 0x2D # decimal (nat (- i)) else decimal (nat i))"

text \<open>\<open>s.padStart(n, c)\<close> for a one-character pad.\<close>

definition padStart :: "nat \<Rightarrow> nat \<Rightarrow> jsstring \<Rightarrow> jsstring" where
  "padStart n c s = replicate (n - length s) c @ s"

text \<open>\<open>Math.floor(r * n)\<close> for a result \<open>r\<close> of \<open>Math.random()\<close>.\<close>

definition randomFloor :: "rat \<Rightarrow> nat \<Rightarrow> int" where
  "randomFloor r n = \<lfloor>r * of_nat n\<rfloor>"

text \<open>
  \<open>rand(arr)\<close>, that is \<open>arr[Math.floor(Math.random() * arr.length)]\<close>; an index out of
  range reads \<open>undefined\<close>, which the template literal of the full name prints.
\<close>

definition rand :: "jsstring list \<Rightarrow> rat \<Rightarrow> jsstring" where
  "rand arr r =
     (let i = randomFloor r (length arr)
      in if 0 \<le> i \<and> i < int (length arr) then arr ! nat i else str ''undefined'')"

definition randomText1 :: "rat \<Rightarrow> rat \<Rightarrow> jsstring" where
  "randomText1 r1 r2 =
     str ''451-'' @ padStart 3 0x30 (numberToString (randomFloor r1 1000)) @ str ''-''
       @ padStart 3 0x30 (numberToString (randomFloor r2 1000))"

definition randomText3 :: "rat \<Rightarrow> jsstring" where
  "randomText3 r = str ''NSU-RCPT-'' @ padStart 6 0x30 (numberToString (randomFloor r 1000000)) @ str ''F''"

subsection \<open>The substitution\<close>

text \<open>
  \<open>b.textK.textTextString = t; updateIntervals(b.textK, t);\<close> on one layer. On an
  object the text is set and the intervals are updated. On an array the property is set
  on the array object, which \<open>JSON.stringify\<close> does not print, and \<open>updateIntervals\<close>
  finds no auxiliary map: the JSON value is unchanged. On a primitive the assignment
  throws (strict mode), as it does on \<open>null\<close>.
\<close>

definition assignText :: "json \<Rightarrow> jsstring \<Rightarrow> error + json" where
  "assignText layer t =
     (case layer of
        JObj kvs \<Rightarrow> Inr (updateIntervals (JObj (AList.update (str ''textTextString'') (JStr t) kvs)) t)
      | JArr xs \<Rightarrow> Inr (JArr xs)
      | _ \<Rightarrow> Inl TypeError)"

fun assignLayers :: "(jsstring \<times> json) list \<Rightarrow> (jsstring \<times> jsstring) list \<Rightarrow> error + (jsstring \<times> json) list" where
  "assignLayers b [] = Inr b"
| "assignLayers b ((k, t) # rest) =
     (case map_of b k of
        None \<Rightarrow> Inl TypeError
      | Some layer \<Rightarrow>
          (case assignText layer t of
             Inl e \<Rightarrow> Inl e
           | Inr layer' \<Rightarrow> assignLayers (AList.update k layer' b) rest))"

definition layerKeys :: "jsstring list" where
  "layerKeys = [str ''text0'', str ''text1'', str ''text2'', str ''text3'']"

text \<open>
  Lines 863 to 877 of \<open>src/unnamed/part_000\<close>: \<open>proj = structuredClone(baseProj)\<close>,
  \<open>b = proj.objectsBundle\<close> and the four assignments, as one function from the base
  descriptor to the descriptor of the unit.
\<close>

definition substitute :: "json \<Rightarrow> jsstring \<Rightarrow> jsstring \<Rightarrow> jsstring \<Rightarrow> jsstring \<Rightarrow> error + json" where
  "substitute baseProj fullName t1 t2 t3 =
     (case baseProj of
        JObj p \<Rightarrow>
          (case map_of p (str ''objectsBundle'') of
             Some (JObj b) \<Rightarrow>
               (case assignLayers b (zip layerKeys [fullName, t1, t2, t3]) of
                  Inl e \<Rightarrow> Inl e
                | Inr b' \<Rightarrow> Inr (JObj (AList.update (str ''objectsBundle'') (JObj b') p)))
           | _ \<Rightarrow> Inl TypeError)
      | _ \<Rightarrow> Inl TypeError)"

text \<open>
  The validation, lines 854 to 857: \<open>baseBundle = baseProj.objectsBundle || {}\<close>, and the
  first of the four keys \<open>k\<close> with \<open>!baseBundle[k]\<close>, if any. (\<open>telegram.js\<close>, line 361,
  tests \<open>!baseProj.objectsBundle?.[k]\<close>, which is the same.)
\<close>

definition hasLayer :: "json \<Rightarrow> jsstring \<Rightarrow> bool" where
  "hasLayer baseProj k =
     (let baseBundle = (case getProp baseProj (str ''objectsBundle'') of
                          Some v \<Rightarrow> if truthy v then v else JObj []
                        | None \<Rightarrow> JObj [])
      in case getProp baseBundle k of Some layer \<Rightarrow> truthy layer | None \<Rightarrow> False)"

definition missingLayer :: "json \<Rightarrow> jsstring option" where
  "missingLayer baseProj = find (\<lambda>k. \<not> hasLayer baseProj k) layerKeys"

subsection \<open>The filename allocator\<close>

definition plp :: "jsstring \<Rightarrow> jsstring" where
  "plp base = base @ str ''.plp''"

definition suffixed :: "jsstring \<Rightarrow> nat \<Rightarrow> jsstring" where
  "suffixed base n = base @ str ''_'' @ decimal n @ str ''.plp''"

text \<open>
  The loop \<open>while (used.has(`${base}_${n}.plp`)) n++;\<close> ends because the names
  \<open>base_n.plp\<close> differ for different \<open>n\<close> and \<open>used\<close> is finite.
\<close>

lemma decimal_value: "foldl (\<lambda>a d. 10 * a + (d - 0x30)) 0 (decimal n) = n"
proof (induction n rule: decimal.induct)
  case (1 n)
  show ?case
  proof (cases "n < 10")
    case True
    then show ?thesis by (simp add: decimal.simps [of n])
  next
    case False
    with 1 show ?thesis by (simp add: decimal.simps [of n])
  qed
qed

lemma decimal_inj: "decimal m = decimal n \<Longrightarrow> m = n"
  by (metis decimal_value)

lemma suffixed_inj: "inj (suffixed base)"
  by (rule injI) (simp add: suffixed_def decimal_inj)

function pickSuffix :: "jsstring \<Rightarrow> jsstring list \<Rightarrow> nat \<Rightarrow> nat" where
  "pickSuffix base used n =
     (if suffixed base n \<in> set used then pickSuffix base used (Suc n) else n)"
  by pat_completeness auto
termination
proof (relation "measure (\<lambda>(base, used, n). card {m. n \<le> m \<and> suffixed base m \<in> set used})")
  show "wf (measure (\<lambda>(base, used, n). card {m. n \<le> m \<and> suffixed base m \<in> set used}))"
    by simp
next
  fix base :: jsstring and used :: "jsstring list" and n :: nat
  assume n: "suffixed base n \<in> set used"
  let ?A = "\<lambda>k. {m. k \<le> m \<and> suffixed base m \<in> set used}"
  have "finite (suffixed base -` set used)"
    by (rule finite_vimageI) (simp_all add: suffixed_inj)
  moreover have "?A n \<subseteq> suffixed base -` set used" by auto
  ultimately have fin: "finite (?A n)" by (rule rev_finite_subset)
  have "?A (Suc n) \<subseteq> ?A n" by auto
  moreover have "n \<in> ?A n" using n by simp
  moreover have "n \<notin> ?A (Suc n)" by simp
  ultimately have "?A (Suc n) \<subset> ?A n" by blast
  with fin have "card (?A (Suc n)) < card (?A n)" by (rule psubset_card_mono)
  then show "((base, used, Suc n), (base, used, n))
      \<in> measure (\<lambda>(base, used, n). card {m. n \<le> m \<and> suffixed base m \<in> set used})"
    by simp
qed

declare pickSuffix.simps [simp del]

text \<open>
  Lines 884 to 890: the candidate \<open>base.plp\<close>, or \<open>base_n.plp\<close> for the first
  \<open>n \<ge> 2\<close> that is not used.
\<close>

definition allocate :: "jsstring \<Rightarrow> jsstring list \<Rightarrow> jsstring" where
  "allocate base used =
     (if plp base \<in> set used then suffixed base (pickSuffix base used 2) else plp base)"

subsection \<open>The orchestrator\<close>

text \<open>
  \<^verbatim>\<open>async function fetchTemplateBytes(env) {
    if (!env.TEMPLATE_URL) throw new Error("TEMPLATE_URL not set");
    const res = await fetch(env.TEMPLATE_URL);
    if (!res.ok) throw new Error(`Template fetch failed: ${res.status}`);
    return await res.arrayBuffer();
  }\<close>
  (\<open>src/functions/telegram.js\<close>, line 345, and, with other words in the message,
  \<open>src/unnamed/part_000\<close>, line 839). A body that cannot be read is a failed fetch.
\<close>

definition fetchTemplateBytes :: "'b world \<Rightarrow> env \<Rightarrow> error + 'b" where
  "fetchTemplateBytes w e =
     (case TEMPLATE_URL e of
        None \<Rightarrow> Inl UrlNotSet
      | Some u \<Rightarrow>
          if u = [] then Inl UrlNotSet
          else (case fetch w u of
                  None \<Rightarrow> Inl FetchThrew
                | Some res \<Rightarrow> if \<not> ok res then Inl (FetchStatus (status res)) else Inr (body res)))"

text \<open>
  The copy of \<open>src/unnamed/part_000\<close>, line 368, trims the location first:
  \<open>const tpl = String(env.TEMPLATE_URL || "").trim(); if (!tpl) throw ...; fetch(tpl)\<close>.
\<close>

definition fetchTemplateBytes_trimmed :: "'b world \<Rightarrow> env \<Rightarrow> error + 'b" where
  "fetchTemplateBytes_trimmed w e =
     (let tpl = trim (case TEMPLATE_URL e of None \<Rightarrow> [] | Some u \<Rightarrow> u)
      in if tpl = [] then Inl UrlNotSet
         else (case fetch w tpl of
                 None \<Rightarrow> Inl FetchThrew
               | Some res \<Rightarrow> if \<not> ok res then Inl (FetchStatus (status res)) else Inr (body res)))"

text \<open>
  The locals of one iteration of the loop of \<open>generateOutputsZip\<close> (lines 862 to 898).
\<close>

record 'b unit_rec =
  firstN :: jsstring
  lastN :: jsstring
  fullName :: jsstring
  t1 :: jsstring
  t2 :: jsstring
  t3 :: jsstring
  proj :: json
  outFiles :: "(jsstring \<times> 'b) list"
  plpU8 :: 'b
  fileName :: jsstring

text \<open>
  The state of a run: \<open>outZipEntries\<close> and \<open>used\<close> (a \<open>Set\<close>, in insertion order) are
  the variables of the source; \<open>draws\<close> counts the calls of \<open>Math.random\<close>, \<open>events\<close>
  lists the messages the progress callback was invoked with, \<open>units\<close> keeps the locals
  of the iterations done.
\<close>

record 'b state =
  outZipEntries :: "(jsstring \<times> 'b) list"
  used :: "jsstring list"
  draws :: nat
  events :: "progress list"
  units :: "'b unit_rec list"

definition initial :: "'b state" where
  "initial = \<lparr>outZipEntries = [], used = [], draws = 0, events = [], units = []\<rparr>"

text \<open>
  \<open>await progressCb(msg)\<close>: no \<open>try\<close> surrounds any of the calls, so a rejection leaves
  the function.
\<close>

definition notify :: "'b world \<Rightarrow> progress \<Rightarrow> 'b state \<Rightarrow> (error \<times> 'b state) + 'b state" where
  "notify w msg st =
     (let st' = st\<lparr>events := events st @ [msg]\<rparr>
      in if progressCb w (length (events st)) msg then Inr st' else Inl (SinkThrew, st'))"

text \<open>Line 895: a progress event on unit 1, on unit N and on the multiples of \<open>max(1, floor(N/10))\<close>.\<close>

definition emitsProgress :: "nat \<Rightarrow> nat \<Rightarrow> bool" where
  "emitsProgress i n \<longleftrightarrow> i = 1 \<or> i = n \<or> i mod max 1 (n div 10) = 0"

text \<open>
  Lines 863 to 890: the unit of one iteration, from the number \<open>d\<close> of random draws made
  before it and the names used before it. In random mode the first name takes one draw
  and the last name the next; \<open>randomText1\<close> takes two and \<open>randomText3\<close> one.
\<close>

definition drawsPerUnit :: "options \<Rightarrow> nat" where
  "drawsPerUnit opts =
     (if firstMode opts = str ''fixed'' then 0 else 1) + (if lastMode opts = str ''fixed'' then 0 else 1) + 3"

definition buildUnit ::
  "'b world \<Rightarrow> options \<Rightarrow> (jsstring \<times> 'b) list \<Rightarrow> json \<Rightarrow> nat \<Rightarrow> jsstring list \<Rightarrow> error + 'b unit_rec" where
  "buildUnit w opts files baseProj d usedNames =
     (let fixedF = (firstMode opts = str ''fixed'');
          first = (if fixedF then titleCase (fixedFirst opts) else rand FIRST_NAMES (mathRandom w d));
          d1 = (if fixedF then d else d + 1);
          fixedL = (lastMode opts = str ''fixed'');
          last = (if fixedL
                  then titleCase (if fixedLast opts = [] then str ''Ahmed'' else fixedLast opts)
                  else rand LAST_NAMES (mathRandom w d1));
          d2 = (if fixedL then d1 else d1 + 1);
          full = trim (first @ [0x20] @ last);
          x1 = randomText1 (mathRandom w d2) (mathRandom w (d2 + 1));
          x2 = (if text2 opts = [] then str ''15/11/2025'' else text2 opts);
          x3 = randomText3 (mathRandom w (d2 + 2))
      in case substitute baseProj full x1 x2 x3 of
           Inl e \<Rightarrow> Inl e
         | Inr p \<Rightarrow>
             (let files' = AList.update (str ''data.plab'') (jsonStringify w p) files
              in Inr \<lparr>firstN = first, lastN = last, fullName = full, t1 = x1, t2 = x2, t3 = x3,
                      proj = p, outFiles = files', plpU8 = zipSync w files',
                      fileName = allocate (sanitizeFilename full) usedNames\<rparr>))"

text \<open>\<open>used.add(fileName)\<close>\<close>

definition setAdd :: "jsstring \<Rightarrow> jsstring list \<Rightarrow> jsstring list" where
  "setAdd x xs = (if x \<in> set xs then xs else xs @ [x])"

text \<open>One iteration of the loop, for the unit index \<open>i\<close>.\<close>

definition iteration ::
  "'b world \<Rightarrow> options \<Rightarrow> (jsstring \<times> 'b) list \<Rightarrow> json \<Rightarrow> nat \<Rightarrow> 'b state \<Rightarrow> (error \<times> 'b state) + 'b state" where
  "iteration w opts files baseProj i st =
     (case buildUnit w opts files baseProj (draws st) (used st) of
        Inl e \<Rightarrow> Inl (e, st\<lparr>draws := draws st + drawsPerUnit opts\<rparr>)
      | Inr u \<Rightarrow>
          (let st' = st\<lparr>outZipEntries := AList.update (fileName u) (plpU8 u) (outZipEntries st),
                         used := setAdd (fileName u) (used st),
                         draws := draws st + drawsPerUnit opts,
                         units := units st @ [u]\<rparr>
           in if emitsProgress i (count opts) then notify w (Generating i (count opts)) st'
              else Inr st'))"

text \<open>\<open>for (let i = 1; i <= options.count; i++)\<close>, as the iterations for the indices of a list.\<close>

fun iterations ::
  "'b world \<Rightarrow> options \<Rightarrow> (jsstring \<times> 'b) list \<Rightarrow> json \<Rightarrow> nat list \<Rightarrow> 'b state \<Rightarrow> (error \<times> 'b state) + 'b state" where
  "iterations w opts files baseProj [] st = Inr st"
| "iterations w opts files baseProj (i # is) st =
     (case iteration w opts files baseProj i st of
        Inl e \<Rightarrow> Inl e
      | Inr st' \<Rightarrow> iterations w opts files baseProj is st')"

text \<open>
  \<open>generateOutputsZip\<close> (\<open>src/unnamed/part_000\<close>, line 846; \<open>src/functions/telegram.js\<close>,
  line 352) up to the final \<open>zipSync\<close>: the state it ends in, with the error when it
  throws. \<open>files["data.plab"]\<close> is a byte array when present, hence truthy.
\<close>

definition run :: "'b world \<Rightarrow> env \<Rightarrow> options \<Rightarrow> (error \<times> 'b state) + 'b state" where
  "run w e opts =
     (case notify w Downloading initial of
        Inl x \<Rightarrow> Inl x
      | Inr st \<Rightarrow>
     (case fetchTemplateBytes w e of
        Inl x \<Rightarrow> Inl (x, st)
      | Inr templateBytes \<Rightarrow>
     (case unzipSync w templateBytes of
        None \<Rightarrow> Inl (UnzipThrew, st)
      | Some files \<Rightarrow>
     (case map_of files (str ''data.plab'') of
        None \<Rightarrow> Inl (MissingDescriptor, st)
      | Some d \<Rightarrow>
     (case jsonParse w d of
        None \<Rightarrow> Inl (ParseThrew, st)
      | Some baseProj \<Rightarrow>
          if baseProj = JNull then Inl (TypeError, st)
          else (case missingLayer baseProj of
                  Some k \<Rightarrow> Inl (MissingLayer k, st)
                | None \<Rightarrow>
                    (case iterations w opts files baseProj [1..<Suc (count opts)] st of
                       Inl x \<Rightarrow> Inl x
                     | Inr st' \<Rightarrow> notify w Packing st')))))))"

definition generateOutputsZip :: "'b world \<Rightarrow> env \<Rightarrow> options \<Rightarrow> error + 'b" where
  "generateOutputsZip w e opts =
     (case run w e opts of
        Inl (x, st) \<Rightarrow> Inl x
      | Inr st \<Rightarrow> Inr (zipSync w (outZipEntries st)))"

text \<open>The state a run ends in, thrown or not.\<close>

definition endState :: "(error \<times> 'b state) + 'b state \<Rightarrow> 'b state" where
  "endState r = (case r of Inl (x, st) \<Rightarrow> st | Inr st \<Rightarrow> st)"

text \<open>The four layers with the texts a unit assigns to them.\<close>

definition unitTexts :: "'b unit_rec \<Rightarrow> (jsstring \<times> jsstring) list" where
  "unitTexts u = zip layerKeys [fullName u, t1 u, t2 u, t3 u]"

subsection \<open>Notions used in the proofs\<close>

text \<open>
  \<open>blockStep\<close> is the body of the inner loop of \<open>updateIntervals\<close> and \<open>updateAux\<close>
  what the outer loop does to the value of one auxiliary key. A layer is consistent
  with a text when every interval record under its two auxiliary maps that carries the
  interval-end field has it equal to the length of the text.
\<close>

definition blockStep :: "nat \<Rightarrow> jsstring \<Rightarrow> (jsstring \<times> json) list \<Rightarrow> (jsstring \<times> json) list" where
  "blockStep n = (\<lambda>intervalKey b.
                   case map_of b intervalKey of
                     Some interval \<Rightarrow> AList.update intervalKey (setIntervalEnd n interval) b
                   | None \<Rightarrow> b)"

definition updateAux :: "nat \<Rightarrow> json \<Rightarrow> json" where
  "updateAux n block = (if truthy block \<and> isObjectValue block then updateBlock n block else block)"

definition layerConsistent :: "json \<Rightarrow> jsstring \<Rightarrow> bool" where
  "layerConsistent layer t \<longleftrightarrow>
     (\<forall>a\<in>set auxKeys. \<forall>block iv. getProp layer a = Some block \<longrightarrow> iv \<in> set (intervalsOf block)
        \<longrightarrow> hasIntervalEnd iv \<longrightarrow> getProp iv (str ''textsIntervalsEnd'') = Some (JNum (of_nat (length t))))"

text \<open>
  The invariant of the loop: the used names are the file names of the units in order,
  they are distinct, the output collection holds one entry per unit, and the \<open>j\<close>-th
  unit is the one built after \<open>j\<close> units' worth of random draws from the names of the
  units before it.
\<close>

definition coherent :: "'b world \<Rightarrow> options \<Rightarrow> (jsstring \<times> 'b) list \<Rightarrow> json \<Rightarrow> 'b state \<Rightarrow> bool" where
  "coherent w opts files bp st \<longleftrightarrow>
     used st = map fileName (units st) \<and> distinct (map fileName (units st))
     \<and> outZipEntries st = map (\<lambda>u. (fileName u, plpU8 u)) (units st)
     \<and> (\<forall>j<length (units st).
          buildUnit w opts files bp (j * drawsPerUnit opts) (map fileName (take j (units st))) = Inr (units st ! j))"

text \<open>
  Every invocation of the progress callback so far has resolved; or the last one has
  rejected and all before it have resolved.
\<close>

definition sinkOK :: "'b world \<Rightarrow> 'b state \<Rightarrow> bool" where
  "sinkOK w st \<longleftrightarrow> (\<forall>k<length (events st). progressCb w k (events st ! k))"

definition sinkFailedLast :: "'b world \<Rightarrow> 'b state \<Rightarrow> bool" where
  "sinkFailedLast w st \<longleftrightarrow>
     events st \<noteq> [] \<and> \<not> progressCb w (length (events st) - 1) (last (events st))
     \<and> (\<forall>k. Suc k < length (events st) \<longrightarrow> progressCb w k (events st ! k))"

text \<open>
  The state after the first notification, and the rest of \<open>run\<close> after a notification
  that resolved and a fetch that succeeded.
\<close>

definition afterDownloading :: "'b state" where
  "afterDownloading = initial\<lparr>events := [Downloading]\<rparr>"

definition afterFetch :: "'b world \<Rightarrow> options \<Rightarrow> 'b \<Rightarrow> (error \<times> 'b state) + 'b state" where
  "afterFetch w opts templateBytes =
     (case unzipSync w templateBytes of
        None \<Rightarrow> Inl (UnzipThrew, afterDownloading)
      | Some files \<Rightarrow>
     (case map_of files (str ''data.plab'') of
        None \<Rightarrow> Inl (MissingDescriptor, afterDownloading)
      | Some d \<Rightarrow>
     (case jsonParse w d of
        None \<Rightarrow> Inl (ParseThrew, afterDownloading)
      | Some baseProj \<Rightarrow>
          if baseProj = JNull then Inl (TypeError, afterDownloading)
          else (case missingLayer baseProj of
                  Some k \<Rightarrow> Inl (MissingLayer k, afterDownloading)
                | None \<Rightarrow>
                    (case iterations w opts files baseProj [1..<Suc (count opts)] afterDownloading of
                       Inl x \<Rightarrow> Inl x
                     | Inr st' \<Rightarrow> notify w Packing st')))))"

text \<open>
  The four layers of a descriptor are object values when its objects bundle is an
  object and each of the four layers in it is an object or an array. Such a template
  passes the validation and is substituted without a \<open>TypeError\<close>.
\<close>

definition objectLayers :: "json \<Rightarrow> bool" where
  "objectLayers baseProj =
     (case getProp baseProj (str ''objectsBundle'') of
        Some (JObj b) \<Rightarrow>
          list_all (\<lambda>k. case map_of b k of Some l \<Rightarrow> isObjectValue l | None \<Rightarrow> False) layerKeys
      | _ \<Rightarrow> False)"

subsection \<open>An example\<close>

text \<open>
  A template with one interval under the colour map of \<open>text0\<close>, a template without
  \<open>text2\<close>, and collaborators for them: a fetch that answers 200 to every location that
  is not blank, or 404; a progress callback that always resolves, or rejects its second
  invocation.
\<close>

definition exampleTemplate :: json where
  "exampleTemplate = JObj [(str ''objectsBundle'', JObj [
      (str ''text0'', JObj [
         (str ''textTextString'', JStr (str ''Name'')),
         (str ''textTextColor'', JObj [
            (str ''0'', JObj [(str ''textsIntervalsStart'', JNum 0), (str ''textsIntervalsEnd'', JNum 4)])])]),
      (str ''text1'', JObj [(str ''textTextString'', JStr (str ''id''))]),
      (str ''text2'', JObj []),
      (str ''text3'', JArr [])])]"

definition lackingTemplate :: json where
  "lackingTemplate = JObj [(str ''objectsBundle'', JObj [
      (str ''text0'', JObj []), (str ''text1'', JObj []), (str ''text3'', JObj [])])]"

definition exampleWorld :: "nat list world" where
  "exampleWorld =
     \<lparr>fetch = (\<lambda>u. if trim u = [] then None else Some \<lparr>ok = True, status = 200, body = [80, 75]\<rparr>),
      unzipSync = (\<lambda>b. if b = [80, 75]
                        then Some [(str ''data.plab'', [1]), (str ''image.png'', [2, 3])] else None),
      zipSync = (\<lambda>m. concat (map (\<lambda>(n, c). n @ c) m)),
      jsonParse = (\<lambda>b. if b = [1] then Some exampleTemplate else None),
      jsonStringify = (\<lambda>j. [9]),
      mathRandom = (\<lambda>k. 1 / 2),
      progressCb = (\<lambda>k m. True)\<rparr>"

definition exampleEnv :: env where
  "exampleEnv = \<lparr>TEMPLATE_URL = Some (str ''https://example.org/t.plp'')\<rparr>"

definition exampleOptions :: options where
  "exampleOptions =
     \<lparr>count = 3, firstMode = str ''fixed'', fixedFirst = str ''ahsan'', lastMode = str ''fixed'',
      fixedLast = str ''khan'', text2 = str ''01/01/2030''\<rparr>"


definition failingWorld :: "nat list world" where
  "failingWorld = exampleWorld\<lparr>progressCb := (\<lambda>k m. k \<noteq> 1)\<rparr>"


definition notFoundWorld :: "nat list world" where
  "notFoundWorld =
     exampleWorld\<lparr>fetch := (\<lambda>u. if trim u = [] then None else Some \<lparr>ok = False, status = 404, body = []\<rparr>)\<rparr>"


section \<open>Lemmas about the string functions\<close>

subsection \<open>replaceRuns\<close>





lemma dropWhile_all: "\<forall>c\<in>set s. p c \<Longrightarrow> dropWhile p s = []"
  by (simp add: dropWhile_eq_Nil_conv)

lemma replaceRuns_all: "s \<noteq> [] \<Longrightarrow> \<forall>c\<in>set s. p c \<Longrightarrow> replaceRuns p r s = r"
  by (cases s) (simp_all add: dropWhile_all)




subsection \<open>trim\<close>









subsection \<open>singleSpaced\<close>




subsection \<open>sanitizeFilename\<close>











subsection \<open>splitRuns and joinWith\<close>









subsection \<open>The case mappings\<close>










section \<open>Lemmas about the substitution\<close>

lemma update_fresh: "k \<notin> fst ` set al \<Longrightarrow> AList.update k v al = al @ [(k, v)]"
  by (induction al) auto

lemma update_present_keys: "k \<in> fst ` set al \<Longrightarrow> map fst (AList.update k v al) = map fst al"
  by (simp add: update_keys)

lemma setIntervalEnd_end:
  "hasIntervalEnd (setIntervalEnd n iv) \<Longrightarrow>
     getProp (setIntervalEnd n iv) (str ''textsIntervalsEnd'') = Some (JNum (of_nat n))"
  by (cases iv) (auto simp: setIntervalEnd_def hasIntervalEnd_def update_conv' split: if_splits)

lemma setIntervalEnd_idem: "setIntervalEnd n (setIntervalEnd n iv) = setIntervalEnd n iv"
  by (cases iv) (auto simp: setIntervalEnd_def dom_update)

lemma blockStep_map_of:
  "map_of (blockStep n k b) k' = (if k' = k then map_option (setIntervalEnd n) (map_of b k) else map_of b k')"
  by (auto simp: blockStep_def update_conv' split: option.splits)

lemma blockStep_keys: "map fst (blockStep n k b) = map fst b"
  by (auto simp: blockStep_def update_keys map_of_eq_None_iff split: option.splits dest: map_of_SomeD)

lemma fold_blockStep_keys: "map fst (fold (blockStep n) ks b) = map fst b"
  by (induction ks arbitrary: b) (simp_all add: blockStep_keys)

lemma fold_blockStep_map_of:
  "map_of (fold (blockStep n) ks b) k =
     (if k \<in> set ks then map_option (setIntervalEnd n) (map_of b k) else map_of b k)"
proof (induction ks arbitrary: b)
  case Nil
  then show ?case by simp
next
  case (Cons a ks)
  show ?case
    by (cases "map_of b k") (auto simp: Cons blockStep_map_of setIntervalEnd_idem)
qed

lemma updateBlock_JObj: "updateBlock n (JObj kvs) = JObj (fold (blockStep n) (map fst kvs) kvs)"
  by (simp add: blockStep_def)

lemma intervalsOf_updateBlock:
  assumes "iv \<in> set (intervalsOf (updateBlock n block))"
  shows "\<exists>iv0. iv = setIntervalEnd n iv0"
proof (cases block)
  case (JObj kvs)
  let ?b = "fold (blockStep n) (map fst kvs) kvs"
  from assms obtain k where k: "k \<in> set (map fst kvs)" and iv: "iv = the (map_of ?b k)"
    unfolding JObj updateBlock_JObj by (auto simp: fold_blockStep_keys)
  from k obtain v where "map_of kvs k = Some v"
    by (cases "map_of kvs k") (auto simp: map_of_eq_None_iff)
  with k iv have "iv = setIntervalEnd n v" by (simp add: fold_blockStep_map_of)
  then show ?thesis ..
next
  case (JArr xs)
  with assms show ?thesis by auto
qed (use assms in simp_all)

lemma updateAux_intervals:
  assumes "iv \<in> set (intervalsOf (updateAux n block))" "hasIntervalEnd iv"
  shows "getProp iv (str ''textsIntervalsEnd'') = Some (JNum (of_nat n))"
proof (cases "truthy block \<and> isObjectValue block")
  case True
  with assms(1) have "iv \<in> set (intervalsOf (updateBlock n block))" by (simp add: updateAux_def)
  then obtain iv0 where "iv = setIntervalEnd n iv0" using intervalsOf_updateBlock by blast
  with assms(2) show ?thesis using setIntervalEnd_end by simp
next
  case False
  then have "intervalsOf block = []" by (cases block) auto
  moreover from False have "updateAux n block = block" unfolding updateAux_def by (rule if_not_P)
  ultimately show ?thesis using assms(1) by simp
qed

lemma auxKeys_distinct: "str ''textTextColor'' \<noteq> str ''textTextFont''"
  by (simp add: str_def)

lemma updateIntervals_JObj:
  "\<exists>kvs'. updateIntervals (JObj kvs) t = JObj kvs'
     \<and> (\<forall>k. map_of kvs' k =
            (if k \<in> set auxKeys then map_option (updateAux (length t)) (map_of kvs k) else map_of kvs k))"
proof -
  let ?n = "length t"
  define step where "step = (\<lambda>k l.
             case l of
               JObj kvs \<Rightarrow>
                 (case map_of kvs k of
                    Some block \<Rightarrow>
                      if truthy block \<and> isObjectValue block
                      then JObj (AList.update k (updateBlock ?n block) kvs)
                      else l
                  | None \<Rightarrow> l)
             | _ \<Rightarrow> l)"
  have step: "\<exists>kvs'. step k (JObj kvs) = JObj kvs'
      \<and> (\<forall>k'. map_of kvs' k' = (if k' = k then map_option (updateAux ?n) (map_of kvs k) else map_of kvs k'))"
    for k kvs
    by (cases "map_of kvs k") (auto simp: step_def updateAux_def update_conv')
  from step [of "str ''textTextColor''" kvs] obtain kvs1 where
    1: "step (str ''textTextColor'') (JObj kvs) = JObj kvs1"
       "\<And>k'. map_of kvs1 k' = (if k' = str ''textTextColor'' then map_option (updateAux ?n) (map_of kvs (str ''textTextColor'')) else map_of kvs k')"
    by blast
  from step [of "str ''textTextFont''" kvs1] obtain kvs2 where
    2: "step (str ''textTextFont'') (JObj kvs1) = JObj kvs2"
       "\<And>k'. map_of kvs2 k' = (if k' = str ''textTextFont'' then map_option (updateAux ?n) (map_of kvs1 (str ''textTextFont'')) else map_of kvs1 k')"
    by blast
  have "updateIntervals (JObj kvs) t = JObj kvs2"
    unfolding updateIntervals_def auxKeys_def step_def [symmetric] using 1(1) 2(1) by simp
  moreover have "map_of kvs2 k =
      (if k \<in> set auxKeys then map_option (updateAux ?n) (map_of kvs k) else map_of kvs k)" for k
    using auxKeys_distinct by (auto simp: 1(2) 2(2) auxKeys_def)
  ultimately show ?thesis by blast
qed

lemma textKey_not_aux: "str ''textTextString'' \<notin> set auxKeys"
  by (simp add: auxKeys_def str_def)

lemma assignText_JObj:
  "\<exists>l'. assignText (JObj kvs) t = Inr (JObj l')
     \<and> map_of l' (str ''textTextString'') = Some (JStr t) \<and> layerConsistent (JObj l') t"
proof -
  let ?kvs = "AList.update (str ''textTextString'') (JStr t) kvs"
  from updateIntervals_JObj [of ?kvs t] obtain l' where
    l': "updateIntervals (JObj ?kvs) t = JObj l'"
        "\<And>k. map_of l' k = (if k \<in> set auxKeys then map_option (updateAux (length t)) (map_of ?kvs k) else map_of ?kvs k)"
    by blast
  have "map_of l' (str ''textTextString'') = Some (JStr t)"
    using textKey_not_aux by (simp add: l'(2) update_conv')
  moreover have "layerConsistent (JObj l') t"
    unfolding layerConsistent_def using updateAux_intervals by (auto simp: l'(2))
  ultimately show ?thesis by (auto simp: assignText_def l'(1))
qed

lemma assignText_consistent: "assignText layer t = Inr l' \<Longrightarrow> layerConsistent l' t"
proof (cases layer)
  case (JObj kvs)
  assume "assignText layer t = Inr l'"
  with assignText_JObj [of kvs t] JObj show ?thesis by auto
next
  case (JArr xs)
  assume "assignText layer t = Inr l'"
  with JArr show ?thesis by (auto simp: assignText_def layerConsistent_def)
qed (auto simp: assignText_def)

lemma assignText_error: "assignText layer t = Inl e \<Longrightarrow> e = TypeError"
  by (cases layer) (auto simp: assignText_def)

lemma assignLayers_result:
  assumes "assignLayers b kts = Inr b'" "distinct (map fst kts)"
  shows "(\<forall>(k, t)\<in>set kts. \<exists>l l'. map_of b k = Some l \<and> assignText l t = Inr l' \<and> map_of b' k = Some l')
     \<and> (\<forall>k. k \<notin> fst ` set kts \<longrightarrow> map_of b' k = map_of b k)"
  using assms
proof (induction b kts rule: assignLayers.induct)
  case (1 b)
  then show ?case by simp
next
  case (2 b k t rest)
  from 2(2) obtain l l' where l: "map_of b k = Some l" "assignText l t = Inr l'"
    and rest: "assignLayers (AList.update k l' b) rest = Inr b'"
    by (auto split: option.splits sum.splits)
  from 2(3) have d: "distinct (map fst rest)" and k: "k \<notin> fst ` set rest" by auto
  from 2(1) [OF l rest d] have
    IH1: "\<forall>(k', t')\<in>set rest. \<exists>m m'. map_of (AList.update k l' b) k' = Some m \<and> assignText m t' = Inr m' \<and> map_of b' k' = Some m'"
    and IH2: "\<forall>k'. k' \<notin> fst ` set rest \<longrightarrow> map_of b' k' = map_of (AList.update k l' b) k'"
    by auto
  from IH2 k have "map_of b' k = Some l'" by (simp add: update_conv')
  with l have here: "\<exists>l l'. map_of b k = Some l \<and> assignText l t = Inr l' \<and> map_of b' k = Some l'" by blast
  have there: "\<exists>l l'. map_of b k' = Some l \<and> assignText l t' = Inr l' \<and> map_of b' k' = Some l'"
    if "(k', t') \<in> set rest" for k' t'
  proof -
    from that k have "k' \<noteq> k" by force
    with IH1 that show ?thesis by (fastforce simp: update_conv')
  qed
  have other: "map_of b' k' = map_of b k'" if "k' \<notin> fst ` set ((k, t) # rest)" for k'
    using that IH2 by (auto simp: update_conv')
  from here there other show ?case by auto
qed

lemma assignLayers_error: "assignLayers b kts = Inl e \<Longrightarrow> e = TypeError"
  by (induction b kts rule: assignLayers.induct)
     (auto split: option.splits sum.splits dest: assignText_error)

lemma layerKeys_distinct: "distinct layerKeys"
  by (simp add: layerKeys_def str_def)

lemma substitute_result:
  assumes "substitute baseProj full x1 x2 x3 = Inr p"
  shows "\<exists>b b'. getProp baseProj (str ''objectsBundle'') = Some (JObj b)
     \<and> getProp p (str ''objectsBundle'') = Some (JObj b')
     \<and> (\<forall>(k, t)\<in>set (zip layerKeys [full, x1, x2, x3]).
           \<exists>l l'. map_of b k = Some l \<and> assignText l t = Inr l' \<and> map_of b' k = Some l')"
proof -
  from assms obtain pm b b' where bp: "baseProj = JObj pm" "map_of pm (str ''objectsBundle'') = Some (JObj b)"
    and al: "assignLayers b (zip layerKeys [full, x1, x2, x3]) = Inr b'"
    and p: "p = JObj (AList.update (str ''objectsBundle'') (JObj b') pm)"
    by (auto simp: substitute_def split: json.splits option.splits sum.splits)
  have "distinct (map fst (zip layerKeys [full, x1, x2, x3]))"
    using layerKeys_distinct by (simp add: layerKeys_def)
  from assignLayers_result [OF al this] bp p show ?thesis by (auto simp: update_conv')
qed

lemma substitute_error: "substitute baseProj full x1 x2 x3 = Inl e \<Longrightarrow> e = TypeError"
  by (auto simp: substitute_def split: json.splits option.splits sum.splits dest: assignLayers_error)

section \<open>Lemmas about the allocator\<close>

lemma pickSuffix_spec:
  "n \<le> pickSuffix base us n \<and> suffixed base (pickSuffix base us n) \<notin> set us
     \<and> (\<forall>m. n \<le> m \<and> m < pickSuffix base us n \<longrightarrow> suffixed base m \<in> set us)"
proof (induction base us n rule: pickSuffix.induct)
  case (1 base us n)
  show ?case
  proof (cases "suffixed base n \<in> set us")
    case True
    then have eq: "pickSuffix base us n = pickSuffix base us (Suc n)"
      by (simp add: pickSuffix.simps [of base us n])
    from 1 [OF True] have IH: "Suc n \<le> pickSuffix base us (Suc n)"
      "suffixed base (pickSuffix base us (Suc n)) \<notin> set us"
      "\<forall>m. Suc n \<le> m \<and> m < pickSuffix base us (Suc n) \<longrightarrow> suffixed base m \<in> set us"
      by auto
    have "suffixed base m \<in> set us" if "n \<le> m" "m < pickSuffix base us (Suc n)" for m
      using that True IH(3) by (cases "m = n") auto
    with IH(1,2) show ?thesis unfolding eq by auto
  next
    case False
    then show ?thesis by (auto simp: pickSuffix.simps [of base us n])
  qed
qed

lemma plp_not_suffixed: "plp base \<noteq> suffixed base n"
  by (simp add: plp_def suffixed_def str_def)

lemma allocate_cases:
  "(plp base \<notin> set us \<and> allocate base us = plp base)
   \<or> (plp base \<in> set us
       \<and> (\<exists>n\<ge>2. allocate base us = suffixed base n \<and> suffixed base n \<notin> set us
            \<and> (\<forall>m. 2 \<le> m \<and> m < n \<longrightarrow> suffixed base m \<in> set us)))"
  using pickSuffix_spec [of 2 base us] by (auto simp: allocate_def)

lemma allocate_fresh: "allocate base us \<notin> set us"
  using allocate_cases [of base us] by auto

section \<open>Lemmas about the loop\<close>

lemma buildUnit_fields:
  assumes "buildUnit w opts files bp d us = Inr u"
  shows "firstN u = (if firstMode opts = str ''fixed'' then titleCase (fixedFirst opts)
                     else rand FIRST_NAMES (mathRandom w d))"
    and "lastN u = (if lastMode opts = str ''fixed''
                    then titleCase (if fixedLast opts = [] then str ''Ahmed'' else fixedLast opts)
                    else rand LAST_NAMES (mathRandom w (if firstMode opts = str ''fixed'' then d else d + 1)))"
    and "fullName u = trim (firstN u @ [0x20] @ lastN u)"
    and "t2 u = (if text2 opts = [] then str ''15/11/2025'' else text2 opts)"
    and "substitute bp (fullName u) (t1 u) (t2 u) (t3 u) = Inr (proj u)"
    and "outFiles u = AList.update (str ''data.plab'') (jsonStringify w (proj u)) files"
    and "plpU8 u = zipSync w (outFiles u)"
    and "fileName u = allocate (sanitizeFilename (fullName u)) us"
  using assms by (auto simp: buildUnit_def Let_def split: sum.splits)

lemma buildUnit_Inl:
  "buildUnit w opts files bp d us = Inl e \<Longrightarrow> \<exists>full x1 x2 x3. substitute bp full x1 x2 x3 = Inl e"
  by (auto simp: buildUnit_def Let_def split: sum.splits)

lemma buildUnit_error: "buildUnit w opts files bp d us = Inl e \<Longrightarrow> e = TypeError"
  using buildUnit_Inl substitute_error by blast

lemma notify_Inr:
  assumes "notify w m st = Inr st'"
  shows "st' = st\<lparr>events := events st @ [m]\<rparr>" and "progressCb w (length (events st)) m"
  using assms by (auto simp: notify_def Let_def split: if_splits)

lemma notify_Inl:
  assumes "notify w m st = Inl (e, st')"
  shows "e = SinkThrew" and "st' = st\<lparr>events := events st @ [m]\<rparr>"
    and "\<not> progressCb w (length (events st)) m"
  using assms by (auto simp: notify_def Let_def split: if_splits)

lemma notify_sinkOK:
  assumes "notify w m st = Inr st'" "sinkOK w st"
  shows "sinkOK w st'"
  using notify_Inr [OF assms(1)] assms(2) by (auto simp: sinkOK_def nth_append less_Suc_eq)

lemma notify_sinkFailed:
  assumes "notify w m st = Inl (e, st')" "sinkOK w st"
  shows "sinkFailedLast w st'"
  using notify_Inl [OF assms(1)] assms(2) by (auto simp: sinkOK_def sinkFailedLast_def nth_append)

lemma coherent_events: "coherent w opts files bp (st\<lparr>events := es\<rparr>) = coherent w opts files bp st"
  by (simp add: coherent_def)

lemma coherent_draws: "coherent w opts files bp (st\<lparr>draws := d\<rparr>) = coherent w opts files bp st"
  by (simp add: coherent_def)

lemma sinkOK_draws: "sinkOK w (st\<lparr>draws := d\<rparr>) = sinkOK w st"
  by (simp add: sinkOK_def)

lemma coherent_step:
  assumes co: "coherent w opts files bp st"
    and dr: "draws st = length (units st) * drawsPerUnit opts"
    and bu: "buildUnit w opts files bp (draws st) (used st) = Inr u"
  shows "coherent w opts files bp
     (st\<lparr>outZipEntries := AList.update (fileName u) (plpU8 u) (outZipEntries st),
         used := setAdd (fileName u) (used st), draws := d, units := units st @ [u]\<rparr>)"
proof -
  from co have used: "used st = map fileName (units st)" and dist: "distinct (map fileName (units st))"
    and out: "outZipEntries st = map (\<lambda>u. (fileName u, plpU8 u)) (units st)"
    and bus: "\<forall>j<length (units st).
          buildUnit w opts files bp (j * drawsPerUnit opts) (map fileName (take j (units st))) = Inr (units st ! j)"
    by (auto simp: coherent_def)
  have fresh: "fileName u \<notin> set (used st)"
    using buildUnit_fields(8) [OF bu] allocate_fresh by simp
  then have 1: "setAdd (fileName u) (used st) = map fileName (units st @ [u])"
    by (simp add: setAdd_def used)
  have 2: "distinct (map fileName (units st @ [u]))" using dist fresh used by simp
  have "fileName u \<notin> fst ` set (outZipEntries st)" using fresh used by (force simp: out)
  then have 3: "AList.update (fileName u) (plpU8 u) (outZipEntries st)
      = map (\<lambda>u. (fileName u, plpU8 u)) (units st @ [u])"
    by (simp add: update_fresh out)
  have 4: "buildUnit w opts files bp (j * drawsPerUnit opts) (map fileName (take j (units st @ [u])))
      = Inr ((units st @ [u]) ! j)" if "j < length (units st @ [u])" for j
  proof (cases "j < length (units st)")
    case True
    with bus show ?thesis by (simp add: nth_append)
  next
    case False
    with that have "j = length (units st)" by simp
    with bu dr used show ?thesis by simp
  qed
  from 1 2 3 4 show ?thesis by (simp add: coherent_def)
qed

lemma iteration_Inr:
  assumes it: "iteration w opts files bp i st = Inr st'"
    and co: "coherent w opts files bp st"
    and dr: "draws st = length (units st) * drawsPerUnit opts"
    and ok: "sinkOK w st"
  shows "coherent w opts files bp st' \<and> draws st' = length (units st') * drawsPerUnit opts
      \<and> sinkOK w st' \<and> length (units st') = Suc (length (units st))
      \<and> events st' = events st @ (if emitsProgress i (count opts) then [Generating i (count opts)] else [])"
proof -
  from it obtain u where bu: "buildUnit w opts files bp (draws st) (used st) = Inr u"
    by (auto simp: iteration_def split: sum.splits)
  define st1 where "st1 = st\<lparr>outZipEntries := AList.update (fileName u) (plpU8 u) (outZipEntries st),
         used := setAdd (fileName u) (used st), draws := draws st + drawsPerUnit opts,
         units := units st @ [u]\<rparr>"
  have co1: "coherent w opts files bp st1" unfolding st1_def using co dr bu by (rule coherent_step)
  have dr1: "draws st1 = length (units st1) * drawsPerUnit opts" by (simp add: st1_def dr)
  have ok1: "sinkOK w st1" using ok by (simp add: st1_def sinkOK_def)
  have len1: "length (units st1) = Suc (length (units st))" "events st1 = events st"
    by (simp_all add: st1_def)
  have eq: "iteration w opts files bp i st =
      (if emitsProgress i (count opts) then notify w (Generating i (count opts)) st1 else Inr st1)"
    unfolding iteration_def st1_def bu by (simp add: Let_def)
  show ?thesis
  proof (cases "emitsProgress i (count opts)")
    case True
    with it have n: "notify w (Generating i (count opts)) st1 = Inr st'" unfolding eq by simp
    from notify_Inr(1) [OF n] notify_sinkOK [OF n ok1] co1 dr1 len1 True
    show ?thesis by (simp add: coherent_events)
  next
    case False
    with it have "st' = st1" unfolding eq by simp
    with co1 dr1 ok1 len1 False show ?thesis by simp
  qed
qed

lemma iteration_Inl:
  assumes it: "iteration w opts files bp i st = Inl (e, st')"
    and co: "coherent w opts files bp st"
    and dr: "draws st = length (units st) * drawsPerUnit opts"
    and ok: "sinkOK w st"
  shows "coherent w opts files bp st'
      \<and> ((e = SinkThrew \<and> sinkFailedLast w st') \<or> (e = TypeError \<and> sinkOK w st'))"
proof (cases "buildUnit w opts files bp (draws st) (used st)")
  case (Inl x)
  with it have "e = x" "st' = st\<lparr>draws := draws st + drawsPerUnit opts\<rparr>"
    by (auto simp: iteration_def)
  with buildUnit_error [OF Inl] co ok show ?thesis
    by (simp add: coherent_draws sinkOK_draws)
next
  case (Inr u)
  define st1 where "st1 = st\<lparr>outZipEntries := AList.update (fileName u) (plpU8 u) (outZipEntries st),
         used := setAdd (fileName u) (used st), draws := draws st + drawsPerUnit opts,
         units := units st @ [u]\<rparr>"
  have co1: "coherent w opts files bp st1" unfolding st1_def using co dr Inr by (rule coherent_step)
  have ok1: "sinkOK w st1" using ok by (simp add: st1_def sinkOK_def)
  have eq: "iteration w opts files bp i st =
      (if emitsProgress i (count opts) then notify w (Generating i (count opts)) st1 else Inr st1)"
    unfolding iteration_def st1_def Inr by (simp add: Let_def)
  from it have n: "notify w (Generating i (count opts)) st1 = Inl (e, st')"
    unfolding eq by (simp split: if_splits)
  from notify_Inl(1,2) [OF n] notify_sinkFailed [OF n ok1] co1 show ?thesis
    by (simp add: coherent_events)
qed

lemma iterations_Inr_conj:
  assumes "iterations w opts files bp is st = Inr st'"
    and "coherent w opts files bp st"
    and "draws st = length (units st) * drawsPerUnit opts"
    and "sinkOK w st"
  shows "coherent w opts files bp st' \<and> sinkOK w st'
     \<and> length (units st') = length (units st) + length is
     \<and> events st' = events st @ map (\<lambda>i. Generating i (count opts)) (filter (\<lambda>i. emitsProgress i (count opts)) is)"
  using assms
proof (induction "is" arbitrary: st)
  case Nil
  then show ?case by simp
next
  case (Cons i "is")
  from Cons.prems(1) obtain st1 where it: "iteration w opts files bp i st = Inr st1"
    and rest: "iterations w opts files bp is st1 = Inr st'"
    by (auto split: sum.splits)
  from iteration_Inr [OF it Cons.prems(2,3,4)]
  have s: "coherent w opts files bp st1" "draws st1 = length (units st1) * drawsPerUnit opts"
    "sinkOK w st1" "length (units st1) = Suc (length (units st))"
    "events st1 = events st @ (if emitsProgress i (count opts) then [Generating i (count opts)] else [])"
    by blast+
  from Cons.IH [OF rest s(1,2,3)] s(4,5) show ?case by simp
qed

lemma iterations_Inr:
  assumes "iterations w opts files bp is st = Inr st'"
    and "coherent w opts files bp st"
    and "draws st = length (units st) * drawsPerUnit opts"
    and "sinkOK w st"
  shows "coherent w opts files bp st'" and "sinkOK w st'"
    and "length (units st') = length (units st) + length is"
    and "events st' = events st @ map (\<lambda>i. Generating i (count opts)) (filter (\<lambda>i. emitsProgress i (count opts)) is)"
  using iterations_Inr_conj [OF assms] by simp_all

lemma iterations_Inl:
  assumes "iterations w opts files bp is st = Inl (e, st')"
    and "coherent w opts files bp st"
    and "draws st = length (units st) * drawsPerUnit opts"
    and "sinkOK w st"
  shows "coherent w opts files bp st'
     \<and> ((e = SinkThrew \<and> sinkFailedLast w st') \<or> (e = TypeError \<and> sinkOK w st'))"
  using assms
proof (induction "is" arbitrary: st)
  case Nil
  then show ?case by simp
next
  case (Cons i "is")
  show ?case
  proof (cases "iteration w opts files bp i st")
    case (Inl x)
    with Cons.prems(1) have "iteration w opts files bp i st = Inl (e, st')" by simp
    from iteration_Inl [OF this Cons.prems(2,3,4)] show ?thesis by simp
  next
    case (Inr st1)
    with Cons.prems(1) have rest: "iterations w opts files bp is st1 = Inl (e, st')" by simp
    from iteration_Inr [OF Inr Cons.prems(2,3,4)]
    have s: "coherent w opts files bp st1" "draws st1 = length (units st1) * drawsPerUnit opts"
      "sinkOK w st1"
      by blast+
    from Cons.IH [OF rest s] show ?thesis .
  qed
qed

section \<open>Lemmas about a whole run\<close>

lemma afterDownloading_facts:
  "coherent w opts files bp afterDownloading"
  "draws (afterDownloading :: 'b state) = length (units (afterDownloading :: 'b state)) * drawsPerUnit opts"
  "events (afterDownloading :: 'b state) = [Downloading]"
  "units (afterDownloading :: 'b state) = []"
  "outZipEntries (afterDownloading :: 'b state) = []"
  by (simp_all add: afterDownloading_def initial_def coherent_def)

lemma notify_first:
  "notify w Downloading initial =
     (if progressCb w 0 Downloading then Inr afterDownloading else Inl (SinkThrew, afterDownloading))"
  by (simp add: notify_def afterDownloading_def initial_def)

lemma sinkOK_afterDownloading: "progressCb w 0 Downloading \<Longrightarrow> sinkOK w afterDownloading"
  by (simp add: sinkOK_def afterDownloading_def initial_def)

lemma sinkFailed_afterDownloading: "\<not> progressCb w 0 Downloading \<Longrightarrow> sinkFailedLast w afterDownloading"
  by (simp add: sinkFailedLast_def afterDownloading_def initial_def)

lemma run_unfold:
  "run w e opts =
     (if \<not> progressCb w 0 Downloading then Inl (SinkThrew, afterDownloading)
      else case fetchTemplateBytes w e of
             Inl x \<Rightarrow> Inl (x, afterDownloading)
           | Inr templateBytes \<Rightarrow> afterFetch w opts templateBytes)"
  by (simp add: run_def notify_first afterFetch_def split: sum.splits)

lemma afterFetch_Inr:
  assumes "afterFetch w opts tb = Inr st" "progressCb w 0 Downloading"
  shows "\<exists>files d bp. unzipSync w tb = Some files \<and> map_of files (str ''data.plab'') = Some d
     \<and> jsonParse w d = Some bp \<and> bp \<noteq> JNull \<and> missingLayer bp = None
     \<and> coherent w opts files bp st \<and> sinkOK w st \<and> length (units st) = count opts
     \<and> events st = Downloading # map (\<lambda>i. Generating i (count opts))
            (filter (\<lambda>i. emitsProgress i (count opts)) [1..<Suc (count opts)]) @ [Packing]"
proof -
  from assms(1) obtain files d bp st1 where
    f: "unzipSync w tb = Some files" "map_of files (str ''data.plab'') = Some d"
       "jsonParse w d = Some bp" "bp \<noteq> JNull" "missingLayer bp = None"
    and its: "iterations w opts files bp [1..<Suc (count opts)] afterDownloading = Inr st1"
    and n: "notify w Packing st1 = Inr st"
    by (auto simp: afterFetch_def split: option.splits sum.splits if_splits)
  note s = iterations_Inr [OF its afterDownloading_facts(1,2) sinkOK_afterDownloading [OF assms(2)]]
  from notify_Inr(1) [OF n] have st: "st = st1\<lparr>events := events st1 @ [Packing]\<rparr>" .
  have "coherent w opts files bp st" using s(1) by (simp add: st coherent_events)
  moreover have "sinkOK w st" using n s(2) by (rule notify_sinkOK)
  moreover have "length (units st) = count opts" using s(3) by (simp add: st afterDownloading_facts)
  moreover have "events st = Downloading # map (\<lambda>i. Generating i (count opts))
            (filter (\<lambda>i. emitsProgress i (count opts)) [1..<Suc (count opts)]) @ [Packing]"
    using s(4) by (simp add: st afterDownloading_facts)
  ultimately show ?thesis using f by blast
qed

lemma afterFetch_Inl:
  assumes "afterFetch w opts tb = Inl (x, st)" "progressCb w 0 Downloading"
  shows "\<not> isTemplateFetchError x \<and> ((x = SinkThrew \<and> sinkFailedLast w st) \<or> (x \<noteq> SinkThrew \<and> sinkOK w st))"
proof -
  note ok0 = sinkOK_afterDownloading [OF assms(2)]
  consider (early) "st = afterDownloading" "x \<in> {UnzipThrew, MissingDescriptor, ParseThrew, TypeError} \<or> (\<exists>k. x = MissingLayer k)"
    | (loop) files bp where "iterations w opts files bp [1..<Suc (count opts)] afterDownloading = Inl (x, st)"
    | (pack) files bp st1 where "iterations w opts files bp [1..<Suc (count opts)] afterDownloading = Inr st1"
        "notify w Packing st1 = Inl (x, st)"
    using assms(1) by (auto simp: afterFetch_def split: option.splits sum.splits if_splits)
  then show ?thesis
  proof cases
    case early
    with ok0 show ?thesis by auto
  next
    case loop
    from iterations_Inl [OF loop afterDownloading_facts(1,2) ok0] show ?thesis by auto
  next
    case pack
    note ok1 = iterations_Inr(2) [OF pack(1) afterDownloading_facts(1,2) ok0]
    from notify_Inl(1) [OF pack(2)] notify_sinkFailed [OF pack(2) ok1] show ?thesis by simp
  qed
qed

lemma fetchTemplateBytes_error: "fetchTemplateBytes w e = Inl x \<Longrightarrow> isTemplateFetchError x"
  by (auto simp: fetchTemplateBytes_def split: option.splits if_splits)

lemma run_Inr:
  assumes "run w e opts = Inr st"
  shows "\<exists>tb files d bp. progressCb w 0 Downloading \<and> fetchTemplateBytes w e = Inr tb
     \<and> unzipSync w tb = Some files \<and> map_of files (str ''data.plab'') = Some d
     \<and> jsonParse w d = Some bp \<and> bp \<noteq> JNull \<and> missingLayer bp = None
     \<and> coherent w opts files bp st \<and> sinkOK w st \<and> length (units st) = count opts
     \<and> events st = Downloading # map (\<lambda>i. Generating i (count opts))
            (filter (\<lambda>i. emitsProgress i (count opts)) [1..<Suc (count opts)]) @ [Packing]"
proof -
  from assms obtain tb where p: "progressCb w 0 Downloading" and f: "fetchTemplateBytes w e = Inr tb"
    and a: "afterFetch w opts tb = Inr st"
    by (auto simp: run_unfold split: if_splits sum.splits)
  from afterFetch_Inr [OF a p] p f show ?thesis by blast
qed

lemma run_Inl:
  assumes "run w e opts = Inl (x, st)"
  shows "(x = SinkThrew \<and> sinkFailedLast w st) \<or> (x \<noteq> SinkThrew \<and> sinkOK w st)"
proof (cases "progressCb w 0 Downloading")
  case False
  with assms show ?thesis by (auto simp: run_unfold sinkFailed_afterDownloading)
next
  case True
  show ?thesis
  proof (cases "fetchTemplateBytes w e")
    case (Inl y)
    with assms True fetchTemplateBytes_error [OF Inl] show ?thesis
      by (auto simp: run_unfold sinkOK_afterDownloading)
  next
    case (Inr tb)
    with assms True have "afterFetch w opts tb = Inl (x, st)" by (simp add: run_unfold)
    from afterFetch_Inl [OF this True] show ?thesis by simp
  qed
qed

subsection \<open>A run that completes\<close>

lemma assignText_object:
  assumes "isObjectValue l"
  shows "\<exists>l'. assignText l t = Inr l' \<and> isObjectValue l'"
proof (cases l)
  case (JObj kvs)
  from assignText_JObj [of kvs t] obtain l' where "assignText (JObj kvs) t = Inr (JObj l')" by blast
  with JObj show ?thesis by simp
next
  case (JArr xs)
  then show ?thesis by (simp add: assignText_def)
qed (use assms in simp_all)

lemma assignLayers_succeeds:
  "\<forall>k\<in>K. \<exists>l. map_of b k = Some l \<and> isObjectValue l \<Longrightarrow> fst ` set kts \<subseteq> K
     \<Longrightarrow> \<exists>b'. assignLayers b kts = Inr b'"
proof (induction b kts rule: assignLayers.induct)
  case (1 b)
  then show ?case by simp
next
  case (2 b k t rest)
  from 2(2,3) obtain l where l: "map_of b k = Some l" "isObjectValue l" by auto
  from assignText_object [OF l(2), of t] obtain l' where l': "assignText l t = Inr l'" "isObjectValue l'"
    by blast
  have "\<forall>k'\<in>K. \<exists>m. map_of (AList.update k l' b) k' = Some m \<and> isObjectValue m"
    using 2(2) l'(2) by (auto simp: update_conv')
  from 2(1) [OF l(1) l'(1) this] 2(3) l l' show ?case by simp
qed

lemma objectLayers_substitute:
  assumes "objectLayers bp"
  shows "\<exists>p. substitute bp full x1 x2 x3 = Inr p"
proof -
  from assms obtain pm b where bp: "bp = JObj pm" "map_of pm (str ''objectsBundle'') = Some (JObj b)"
    and all: "list_all (\<lambda>k. case map_of b k of Some l \<Rightarrow> isObjectValue l | None \<Rightarrow> False) layerKeys"
    by (cases bp) (auto simp: objectLayers_def split: option.splits json.splits)
  from all have "\<forall>k\<in>set layerKeys. \<exists>l. map_of b k = Some l \<and> isObjectValue l"
    by (auto simp: list_all_iff split: option.splits)
  moreover have "fst ` set (zip layerKeys [full, x1, x2, x3]) \<subseteq> set layerKeys"
    by (auto dest: set_zip_leftD)
  ultimately obtain b' where "assignLayers b (zip layerKeys [full, x1, x2, x3]) = Inr b'"
    using assignLayers_succeeds by blast
  with bp show ?thesis by (simp add: substitute_def)
qed

lemma objectLayers_validated:
  assumes "objectLayers bp"
  shows "bp \<noteq> JNull" and "missingLayer bp = None"
proof -
  from assms obtain pm b where bp: "bp = JObj pm" "map_of pm (str ''objectsBundle'') = Some (JObj b)"
    and all: "list_all (\<lambda>k. case map_of b k of Some l \<Rightarrow> isObjectValue l | None \<Rightarrow> False) layerKeys"
    by (cases bp) (auto simp: objectLayers_def split: option.splits json.splits)
  show "bp \<noteq> JNull" using bp by simp
  have "hasLayer bp k" if "k \<in> set layerKeys" for k
  proof -
    from all that obtain l where "map_of b k = Some l" "isObjectValue l"
      by (auto simp: list_all_iff split: option.splits)
    moreover from this have "truthy l" by (cases l) auto
    ultimately show ?thesis using bp by (simp add: hasLayer_def)
  qed
  then show "missingLayer bp = None" by (simp add: missingLayer_def find_None_iff)
qed

lemma iterations_succeed:
  assumes "\<forall>k m. progressCb w k m" "objectLayers bp"
  shows "\<exists>st'. iterations w opts files bp is st = Inr st'"
proof (induction "is" arbitrary: st)
  case Nil
  then show ?case by simp
next
  case (Cons i "is")
  have "\<exists>u. buildUnit w opts files bp (draws st) (used st) = Inr u"
  proof (cases "buildUnit w opts files bp (draws st) (used st)")
    case (Inl x)
    from buildUnit_Inl [OF Inl] obtain full x1 x2 x3 where "substitute bp full x1 x2 x3 = Inl x" by blast
    with objectLayers_substitute [OF assms(2), of full x1 x2 x3] show ?thesis by simp
  next
    case (Inr u)
    then show ?thesis by simp
  qed
  then obtain u where u: "buildUnit w opts files bp (draws st) (used st) = Inr u" ..
  have "\<exists>st1. iteration w opts files bp i st = Inr st1"
    unfolding iteration_def u using assms(1) by (simp add: notify_def Let_def)
  then obtain st1 where "iteration w opts files bp i st = Inr st1" ..
  with Cons [of st1] show ?case by simp
qed

lemma run_succeeds:
  assumes "\<forall>k m. progressCb w k m" "fetchTemplateBytes w e = Inr tb" "unzipSync w tb = Some files"
    "map_of files (str ''data.plab'') = Some d" "jsonParse w d = Some bp" "objectLayers bp"
  shows "\<exists>st. run w e opts = Inr st"
proof -
  from iterations_succeed [OF assms(1,6)] obtain st1 where
    "iterations w opts files bp [1..<Suc (count opts)] afterDownloading = Inr st1" by blast
  with assms(2-5) objectLayers_validated [OF assms(6)] have "\<exists>st. afterFetch w opts tb = Inr st"
    using assms(1) by (simp add: afterFetch_def notify_def)
  with assms(1,2) show ?thesis by (simp add: run_unfold)
qed




lemma run_unit:
  assumes "run w e opts = Inr st" "u \<in> set (units st)"
  shows "\<exists>tb files d bp j. fetchTemplateBytes w e = Inr tb \<and> unzipSync w tb = Some files
     \<and> map_of files (str ''data.plab'') = Some d \<and> jsonParse w d = Some bp
     \<and> j < length (units st) \<and> u = units st ! j
     \<and> buildUnit w opts files bp (j * drawsPerUnit opts) (map fileName (take j (units st))) = Inr u"
proof -
  from run_Inr [OF assms(1)] obtain tb files d bp where
    f: "fetchTemplateBytes w e = Inr tb" "unzipSync w tb = Some files"
       "map_of files (str ''data.plab'') = Some d" "jsonParse w d = Some bp"
    and co: "coherent w opts files bp st"
    by blast
  from assms(2) obtain j where j: "j < length (units st)" "u = units st ! j"
    by (auto simp: in_set_conv_nth)
  with co have "buildUnit w opts files bp (j * drawsPerUnit opts) (map fileName (take j (units st))) = Inr u"
    by (simp add: coherent_def)
  with f j show ?thesis by blast
qed


lemma run_names:
  assumes "run w e opts = Inr st" "j < count opts"
  shows "fileName (units st ! j)
     = allocate (sanitizeFilename (fullName (units st ! j))) (map fileName (take j (units st)))"
proof -
  from run_Inr [OF assms(1)] obtain files bp where
    co: "coherent w opts files bp st" and len: "length (units st) = count opts"
    by blast
  with assms(2) have "buildUnit w opts files bp (j * drawsPerUnit opts) (map fileName (take j (units st)))
      = Inr (units st ! j)"
    by (simp add: coherent_def)
  from buildUnit_fields(8) [OF this] show ?thesis .
qed

lemma same_base_names:
  assumes alloc: "\<And>j. j < n \<Longrightarrow> names ! j = allocate base (take j names)"
    and len: "length names = n"
  shows "j < n \<Longrightarrow> names ! j = (if j = 0 then plp base else suffixed base (Suc j))"
proof (induction j rule: less_induct)
  case (less j)
  let ?name = "\<lambda>i. if i = 0 then plp base else suffixed base (Suc i)"
  have prior: "set (take j names) = ?name ` {..<j}"
  proof -
    have "take j names = map ?name [0..<j]"
    proof (rule nth_equalityI)
      show "length (take j names) = length (map ?name [0..<j])" using less.prems len by simp
    next
      fix i
      assume "i < length (take j names)"
      then have i: "i < j" by simp
      with less.IH [OF i] less.prems show "take j names ! i = map ?name [0..<j] ! i" by simp
    qed
    then show ?thesis by (simp add: atLeast0LessThan)
  qed
  show ?case
  proof (cases "j = 0")
    case True
    with alloc [OF less.prems] show ?thesis by (simp add: allocate_def)
  next
    case False
    then have "plp base \<in> set (take j names)" unfolding prior by force
    with allocate_cases [of base "take j names"] alloc [OF less.prems] obtain k where
      k: "2 \<le> k" "names ! j = suffixed base k" "suffixed base k \<notin> set (take j names)"
         "\<forall>m. 2 \<le> m \<and> m < k \<longrightarrow> suffixed base m \<in> set (take j names)"
      by auto
    have "\<not> k \<le> j"
    proof
      assume "k \<le> j"
      with k(1) have "k - 1 < j" "k - 1 \<noteq> 0" "Suc (k - 1) = k" by simp_all
      then have eq: "?name (k - 1) = suffixed base k" by simp
      have "?name (k - 1) \<in> ?name ` {..<j}" using \<open>k - 1 < j\<close> by (intro imageI) simp
      then have "suffixed base k \<in> set (take j names)" unfolding prior eq .
      with k(3) show False ..
    qed
    moreover have "\<not> Suc j < k"
    proof
      assume "Suc j < k"
      with False k(4) have "suffixed base (Suc j) \<in> set (take j names)" by simp
      then obtain i where i: "i < j" "?name i = suffixed base (Suc j)" unfolding prior by auto
      show False
      proof (cases "i = 0")
        case True
        with i(2) show False using plp_not_suffixed [of base "Suc j"] by simp
      next
        case False
        with i(2) have "suffixed base (Suc i) = suffixed base (Suc j)" by simp
        then have "Suc i = Suc j" using suffixed_inj [of base] by (simp add: inj_eq)
        with i(1) show False by simp
      qed
    qed
    ultimately have "k = Suc j" by simp
    with k(2) False show ?thesis by simp
  qed
qed

lemma run_fetch_error:
  assumes "progressCb w 0 Downloading"
  shows "(\<exists>x. generateOutputsZip w e opts = Inl x \<and> isTemplateFetchError x)
     \<longleftrightarrow> (\<exists>x. fetchTemplateBytes w e = Inl x)"
proof (cases "fetchTemplateBytes w e")
  case (Inl x)
  with assms have "run w e opts = Inl (x, afterDownloading)" by (simp add: run_unfold)
  with Inl fetchTemplateBytes_error [OF Inl] show ?thesis by (simp add: generateOutputsZip_def)
next
  case (Inr tb)
  have "\<not> isTemplateFetchError x" if "generateOutputsZip w e opts = Inl x" for x
  proof -
    from that obtain st where "run w e opts = Inl (x, st)"
      by (auto simp: generateOutputsZip_def split: sum.splits)
    with assms Inr have "afterFetch w opts tb = Inl (x, st)" by (simp add: run_unfold)
    from afterFetch_Inl [OF this assms] show ?thesis by simp
  qed
  with Inr show ?thesis by auto
qed

lemma fetchTemplateBytes_fails:
  "(\<exists>x. fetchTemplateBytes w e = Inl x)
     \<longleftrightarrow> (case TEMPLATE_URL e of
            None \<Rightarrow> True
          | Some u \<Rightarrow> u = [] \<or> fetch w u = None \<or> (\<exists>res. fetch w u = Some res \<and> \<not> ok res))"
  by (auto simp: fetchTemplateBytes_def split: option.splits)

lemma fetchTemplateBytes_trimmed_fails:
  "(\<exists>x. fetchTemplateBytes_trimmed w e = Inl x)
     \<longleftrightarrow> (case TEMPLATE_URL e of
            None \<Rightarrow> True
          | Some u \<Rightarrow> trim u = [] \<or> fetch w (trim u) = None
                     \<or> (\<exists>res. fetch w (trim u) = Some res \<and> \<not> ok res))"
  by (auto simp: fetchTemplateBytes_trimmed_def Let_def trim_def split: option.splits)

lemma fetchTemplateBytes_trimmed_error:
  "fetchTemplateBytes_trimmed w e = Inl x \<Longrightarrow> isTemplateFetchError x"
  by (auto simp: fetchTemplateBytes_trimmed_def Let_def split: option.splits if_splits)

section \<open>Lemmas about the example\<close>

lemmas example_defs = exampleWorld_def exampleEnv_def exampleOptions_def exampleTemplate_def
  lackingTemplate_def

lemmas string_evals = str_def trim_def isWS_def isForbidden_def titleCase_def capitalize_def
  toUpperCase_def toLowerCase_def upperCU_def lowerCU_def sanitizeFilename_def

lemmas run_evals = run_def notify_def initial_def fetchTemplateBytes_def
  missingLayer_def hasLayer_def layerKeys_def iteration_def buildUnit_def substitute_def assignText_def
  updateIntervals_def auxKeys_def setIntervalEnd_def allocate_def plp_def
  suffixed_def pickSuffix.simps decimal.simps randomText1_def randomText3_def padStart_def numberToString_def
  randomFloor_def emitsProgress_def setAdd_def drawsPerUnit_def Let_def generateOutputsZip_def endState_def

lemma example_completes: "\<exists>st. run exampleWorld exampleEnv opts = Inr st"
proof (rule run_succeeds)
  show "\<forall>k m. progressCb exampleWorld k m" by (simp add: exampleWorld_def)
  show "fetchTemplateBytes exampleWorld exampleEnv = Inr [80, 75]"
    by (simp add: fetchTemplateBytes_def example_defs string_evals)
  show "unzipSync exampleWorld [80, 75] = Some [(str ''data.plab'', [1]), (str ''image.png'', [2, 3])]"
    by (simp add: exampleWorld_def)
  show "map_of [(str ''data.plab'', [1]), (str ''image.png'', [2, 3 :: nat])] (str ''data.plab'') = Some [1]"
    by simp
  show "jsonParse exampleWorld [1] = Some exampleTemplate" by (simp add: exampleWorld_def)
  show "objectLayers exampleTemplate"
    by (simp add: objectLayers_def exampleTemplate_def layerKeys_def str_def)
qed

lemma example_full_names:
  assumes "run exampleWorld exampleEnv exampleOptions = Inr st" "u \<in> set (units st)"
  shows "firstN u = str ''Ahsan''" "lastN u = str ''Khan''" "fullName u = str ''Ahsan Khan''"
    "sanitizeFilename (fullName u) = str ''Ahsan Khan''"
proof -
  from run_unit [OF assms] obtain files bp d us where
    bu: "buildUnit exampleWorld exampleOptions files bp d us = Inr u" by blast
  from buildUnit_fields(1) [OF bu] show 1: "firstN u = str ''Ahsan''"
    by (simp add: exampleOptions_def string_evals)
  from buildUnit_fields(2) [OF bu] show 2: "lastN u = str ''Khan''"
    by (simp add: exampleOptions_def string_evals)
  from buildUnit_fields(3) [OF bu] show 3: "fullName u = str ''Ahsan Khan''"
    unfolding 1 2 by (simp add: string_evals)
  show "sanitizeFilename (fullName u) = str ''Ahsan Khan''"
    unfolding 3 by (simp add: string_evals)
qed

lemma failing_events:
  "events (endState (run failingWorld exampleEnv exampleOptions)) = [Downloading, Generating 1 3]"
  by (simp add: failingWorld_def example_defs run_evals string_evals upt_rec)


section \<open>The claims\<close>

text \<open>
  C1. In every unit of a completed run, for each of the four layers \<open>k\<close> with the text
  \<open>t\<close> assigned to it: every interval record found under one of the layer's two
  auxiliary maps (\<open>textTextColor\<close>, \<open>textTextFont\<close>) that is an object carrying the field
  \<open>textsIntervalsEnd\<close> has that field equal to the length of \<open>t\<close> (the length of a
  JavaScript string, in UTF-16 code units), and the layer's text is \<open>t\<close>. The
  assignment to an object layer returns without error whatever maps or fields the layer
  has or lacks.
\<close>

theorem interval_ends_follow_text:
  assumes "run w e opts = Inr st" "u \<in> set (units st)" "(k, t) \<in> set (unitTexts u)"
    and "getProp (proj u) (str ''objectsBundle'') = Some b" "getProp b k = Some layer"
    and "a \<in> set auxKeys" "getProp layer a = Some block"
    and "interval \<in> set (intervalsOf block)" "hasIntervalEnd interval"
  shows "getProp interval (str ''textsIntervalsEnd'') = Some (JNum (of_nat (length t)))
     \<and> getProp layer (str ''textTextString'') = Some (JStr t)
     \<and> (\<forall>kvs t'. \<exists>l'. assignText (JObj kvs) t' = Inr l')"
proof -
  from run_unit [OF assms(1,2)] obtain files bp d us where
    "buildUnit w opts files bp d us = Inr u" by blast
  from buildUnit_fields(5) [OF this]
  have "substitute bp (fullName u) (t1 u) (t2 u) (t3 u) = Inr (proj u)" .
  from substitute_result [OF this] obtain b0 b' where
    b': "getProp (proj u) (str ''objectsBundle'') = Some (JObj b')"
    and each: "\<forall>(k, t)\<in>set (unitTexts u).
           \<exists>l l'. map_of b0 k = Some l \<and> assignText l t = Inr l' \<and> map_of b' k = Some l'"
    unfolding unitTexts_def by blast
  from b' assms(4) have b: "b = JObj b'" by simp
  from each assms(3) obtain l l' where l: "assignText l t = Inr l'" "map_of b' k = Some l'" by blast
  with b assms(5) have layer: "layer = l'" by simp
  from assignText_consistent [OF l(1)] assms(6-9) have
    1: "getProp interval (str ''textsIntervalsEnd'') = Some (JNum (of_nat (length t)))"
    unfolding layerConsistent_def layer by blast
  from assms(7) obtain kvs' where kvs': "layer = JObj kvs'" by (cases layer) auto
  then obtain kvs where "l = JObj kvs" using l(1) layer by (cases l) (auto simp: assignText_def)
  with assignText_JObj [of kvs t] l(1) layer
  have 2: "getProp layer (str ''textTextString'') = Some (JStr t)" by auto
  have 3: "\<forall>kvs t'. \<exists>l'. assignText (JObj kvs) t' = Inr l'" using assignText_JObj by blast
  from 1 2 3 show ?thesis by blast
qed

text \<open>
  An instance: the one unit of the example run with count 1. The interval under the
  colour map of \<open>text0\<close> ends at 10, the length of \<open>Ahsan Khan\<close>.
\<close>

theorem interval_ends_follow_text_witness:
  "\<exists>st u b layer block interval.
     run exampleWorld exampleEnv (exampleOptions\<lparr>count := 1\<rparr>) = Inr st \<and> u \<in> set (units st)
     \<and> fullName u = str ''Ahsan Khan''
     \<and> getProp (proj u) (str ''objectsBundle'') = Some b \<and> getProp b (str ''text0'') = Some layer
     \<and> getProp layer (str ''textTextColor'') = Some block \<and> interval \<in> set (intervalsOf block)
     \<and> hasIntervalEnd interval
     \<and> getProp interval (str ''textsIntervalsEnd'') = Some (JNum 10)
     \<and> getProp layer (str ''textTextString'') = Some (JStr (str ''Ahsan Khan''))"
proof -
  define st where "st = endState (run exampleWorld exampleEnv (exampleOptions\<lparr>count := 1\<rparr>))"
  define interval where
    "interval = JObj [(str ''textsIntervalsStart'', JNum 0), (str ''textsIntervalsEnd'', JNum 10)]"
  define block where "block = JObj [(str ''0'', interval)]"
  define layer where
    "layer = JObj [(str ''textTextString'', JStr (str ''Ahsan Khan'')), (str ''textTextColor'', block)]"
  define b where
    "b = JObj [(str ''text0'', layer),
               (str ''text1'', JObj [(str ''textTextString'', JStr (str ''451-500-500''))]),
               (str ''text2'', JObj [(str ''textTextString'', JStr (str ''01/01/2030''))]),
               (str ''text3'', JArr [])]"
  have r: "run exampleWorld exampleEnv (exampleOptions\<lparr>count := 1\<rparr>) = Inr st"
    unfolding st_def by (simp add: example_defs run_evals string_evals)
  have "\<exists>u. units st = [u] \<and> fullName u = str ''Ahsan Khan''
      \<and> proj u = JObj [(str ''objectsBundle'', b)]"
    unfolding st_def b_def layer_def block_def interval_def
    by (simp add: example_defs run_evals string_evals)
  then obtain u where u: "units st = [u]" "fullName u = str ''Ahsan Khan''"
    "proj u = JObj [(str ''objectsBundle'', b)]" by blast
  have h1: "u \<in> set (units st)" by (simp add: u(1))
  have h2: "(str ''text0'', str ''Ahsan Khan'') \<in> set (unitTexts u)"
    by (simp add: unitTexts_def layerKeys_def u(2))
  have h3: "getProp (proj u) (str ''objectsBundle'') = Some b" by (simp add: u(3))
  have h4: "getProp b (str ''text0'') = Some layer" by (simp add: b_def)
  have h5: "str ''textTextColor'' \<in> set auxKeys" by (simp add: auxKeys_def)
  have h6: "getProp layer (str ''textTextColor'') = Some block" by (simp add: layer_def str_def)
  have h7: "interval \<in> set (intervalsOf block)" by (simp add: block_def)
  have h8: "hasIntervalEnd interval" by (simp add: interval_def hasIntervalEnd_def)
  from interval_ends_follow_text [OF r h1 h2 h3 h4 h5 h6 h7 h8]
  have "getProp interval (str ''textsIntervalsEnd'') = Some (JNum 10)"
    and "getProp layer (str ''textTextString'') = Some (JStr (str ''Ahsan Khan''))"
    by (simp_all add: str_def)
  with r h1 u(2) h3 h4 h6 h7 h8 show ?thesis by blast
qed

text \<open>
  C2. In every completed run of \<open>N\<close> units the output collection has \<open>N\<close> entries whose
  names are the file names of the units and pairwise distinct; they are what the outer
  archive is packed from. The name of unit \<open>j\<close> is \<open>base.plp\<close> when that is not among the
  earlier names, and otherwise \<open>base_n.plp\<close> for the first \<open>n \<ge> 2\<close> whose name is not
  among them. A unit that shares its sanitized base name with an earlier one gets such a
  suffix; and when all units share one base name, they are named \<open>base.plp\<close>,
  \<open>base_2.plp\<close>, \<open>base_3.plp\<close>, ... in allocation order.
\<close>

theorem filenames_distinct_and_suffixed:
  assumes "run w e opts = Inr st"
  shows "length (outZipEntries st) = count opts \<and> distinct (map fst (outZipEntries st))
     \<and> map fst (outZipEntries st) = map fileName (units st)
     \<and> generateOutputsZip w e opts = Inr (zipSync w (outZipEntries st))
     \<and> (\<forall>j<count opts.
          let base = sanitizeFilename (fullName (units st ! j));
              prior = set (map fileName (take j (units st)))
          in (plp base \<notin> prior \<and> fileName (units st ! j) = plp base)
             \<or> (plp base \<in> prior
                 \<and> (\<exists>n\<ge>2. fileName (units st ! j) = suffixed base n \<and> suffixed base n \<notin> prior
                      \<and> (\<forall>m. 2 \<le> m \<and> m < n \<longrightarrow> suffixed base m \<in> prior))))
     \<and> (\<forall>i j. i < j \<and> j < count opts
            \<and> sanitizeFilename (fullName (units st ! i)) = sanitizeFilename (fullName (units st ! j))
          \<longrightarrow> (\<exists>n\<ge>2. fileName (units st ! j) = suffixed (sanitizeFilename (fullName (units st ! j))) n))
     \<and> (\<forall>base. (\<forall>j<count opts. sanitizeFilename (fullName (units st ! j)) = base)
          \<longrightarrow> (\<forall>j<count opts.
                 fileName (units st ! j) = (if j = 0 then plp base else suffixed base (Suc j))))"
proof -
  from run_Inr [OF assms] obtain files bp where
    co: "coherent w opts files bp st" and len: "length (units st) = count opts"
    by blast
  let ?us = "units st"
  let ?names = "map fileName ?us"
  from co have out: "outZipEntries st = map (\<lambda>u. (fileName u, plpU8 u)) ?us"
    and dist: "distinct ?names"
    by (auto simp: coherent_def)
  have keys: "map fst (outZipEntries st) = ?names" by (simp add: out comp_def)
  have 1: "length (outZipEntries st) = count opts" by (simp add: out len)
  have 2: "distinct (map fst (outZipEntries st))" using dist keys by simp
  have 3: "generateOutputsZip w e opts = Inr (zipSync w (outZipEntries st))"
    by (simp add: generateOutputsZip_def assms)
  have alloc: "fileName (?us ! j) = allocate (sanitizeFilename (fullName (?us ! j))) (map fileName (take j ?us))"
    if "j < count opts" for j
    using assms that by (rule run_names)
  have 4: "\<forall>j<count opts.
          let base = sanitizeFilename (fullName (?us ! j));
              prior = set (map fileName (take j ?us))
          in (plp base \<notin> prior \<and> fileName (?us ! j) = plp base)
             \<or> (plp base \<in> prior
                 \<and> (\<exists>n\<ge>2. fileName (?us ! j) = suffixed base n \<and> suffixed base n \<notin> prior
                      \<and> (\<forall>m. 2 \<le> m \<and> m < n \<longrightarrow> suffixed base m \<in> prior)))"
  proof (intro allI impI)
    fix j
    assume j: "j < count opts"
    from allocate_cases [of "sanitizeFilename (fullName (?us ! j))" "map fileName (take j ?us)"]
    show "let base = sanitizeFilename (fullName (?us ! j));
              prior = set (map fileName (take j ?us))
          in (plp base \<notin> prior \<and> fileName (?us ! j) = plp base)
             \<or> (plp base \<in> prior
                 \<and> (\<exists>n\<ge>2. fileName (?us ! j) = suffixed base n \<and> suffixed base n \<notin> prior
                      \<and> (\<forall>m. 2 \<le> m \<and> m < n \<longrightarrow> suffixed base m \<in> prior)))"
      unfolding Let_def alloc [OF j] .
  qed
  have 5: "\<exists>n\<ge>2. fileName (?us ! j) = suffixed (sanitizeFilename (fullName (?us ! j))) n"
    if ij: "i < j" "j < count opts"
      and same: "sanitizeFilename (fullName (?us ! i)) = sanitizeFilename (fullName (?us ! j))"
    for i j
  proof -
    let ?base = "sanitizeFilename (fullName (?us ! j))"
    have sub: "set (map fileName (take i ?us)) \<subseteq> set (map fileName (take j ?us))"
      using ij(1) set_take_subset_set_take [of i j ?us] by auto
    have mem: "fileName (?us ! i) \<in> set (map fileName (take j ?us))"
    proof -
      have "?us ! i = take j ?us ! i" using ij by simp
      moreover have "i < length (take j ?us)" using ij len by simp
      ultimately have "?us ! i \<in> set (take j ?us)" by (metis nth_mem)
      then show ?thesis by simp
    qed
    from ij have i: "i < count opts" by simp
    have "plp ?base \<in> set (map fileName (take j ?us))"
      using allocate_cases [of ?base "map fileName (take i ?us)"] alloc [OF i] same sub mem by auto
    with allocate_cases [of ?base "map fileName (take j ?us)"] alloc [OF ij(2)]
    show ?thesis by auto
  qed
  have 6: "fileName (?us ! j) = (if j = 0 then plp base else suffixed base (Suc j))"
    if all: "\<forall>j<count opts. sanitizeFilename (fullName (?us ! j)) = base" and j: "j < count opts"
    for base j
  proof -
    have "?names ! j = (if j = 0 then plp base else suffixed base (Suc j))"
    proof (rule same_base_names [where n = "count opts" and names = ?names])
      fix i
      assume i: "i < count opts"
      with alloc [OF i] all len show "?names ! i = allocate base (take i ?names)"
        by (simp add: take_map)
    qed (use len j in simp_all)
    with j len show ?thesis by simp
  qed
  from 1 2 keys 3 4 5 6 show ?thesis by blast
qed

text \<open>An instance: the three units of the example run, all named \<open>Ahsan Khan\<close>.\<close>

theorem filenames_distinct_and_suffixed_witness:
  "\<exists>st. run exampleWorld exampleEnv exampleOptions = Inr st
     \<and> map fileName (units st)
         = [str ''Ahsan Khan.plp'', str ''Ahsan Khan_2.plp'', str ''Ahsan Khan_3.plp'']
     \<and> map fst (outZipEntries st) = map fileName (units st)
     \<and> distinct (map fst (outZipEntries st))"
proof -
  from example_completes obtain st where r: "run exampleWorld exampleEnv exampleOptions = Inr st" ..
  note t = filenames_distinct_and_suffixed [OF r]
  from t have len: "length (outZipEntries st) = count exampleOptions"
    and d: "distinct (map fst (outZipEntries st))"
    and keys: "map fst (outZipEntries st) = map fileName (units st)"
    by blast+
  from keys len have "length (units st) = count exampleOptions" by (metis length_map)
  then have lu: "length (units st) = 3" by (simp add: exampleOptions_def)
  have same: "\<forall>j<count exampleOptions. sanitizeFilename (fullName (units st ! j)) = str ''Ahsan Khan''"
    using example_full_names(4) [OF r] lu by (simp add: exampleOptions_def)
  from t same have "\<forall>j<count exampleOptions.
      fileName (units st ! j) = (if j = 0 then plp (str ''Ahsan Khan'') else suffixed (str ''Ahsan Khan'') (Suc j))"
    by blast
  then have "fileName (units st ! 0) = str ''Ahsan Khan.plp''"
    "fileName (units st ! 1) = str ''Ahsan Khan_2.plp''"
    "fileName (units st ! 2) = str ''Ahsan Khan_3.plp''"
    by (simp_all add: exampleOptions_def plp_def suffixed_def decimal.simps str_def)
  moreover from lu obtain a b c where "units st = [a, b, c]"
    by (auto simp: length_Suc_conv numeral_3_eq_3)
  ultimately have "map fileName (units st)
      = [str ''Ahsan Khan.plp'', str ''Ahsan Khan_2.plp'', str ''Ahsan Khan_3.plp'']"
    by simp
  with r keys d show ?thesis by (intro exI [of _ st]) simp
qed

text \<open>
  C3 (as amended). A failure of a progress-sink invocation is not caught by the
  orchestrator: the batch fails with the sink's error exactly when an invocation of the
  callback rejects, and then it is the last invocation made, every earlier one having
  resolved; no archive is returned.
\<close>

theorem sink_failure_aborts:
  "(generateOutputsZip w e opts = Inl SinkThrew
      \<longleftrightarrow> (\<exists>k<length (events (endState (run w e opts))).
             \<not> progressCb w k (events (endState (run w e opts)) ! k)))
   \<and> (generateOutputsZip w e opts = Inl SinkThrew
      \<longrightarrow> events (endState (run w e opts)) \<noteq> []
          \<and> \<not> progressCb w (length (events (endState (run w e opts))) - 1)
                 (last (events (endState (run w e opts))))
          \<and> (\<forall>k. Suc k < length (events (endState (run w e opts)))
                \<longrightarrow> progressCb w k (events (endState (run w e opts)) ! k)))"
proof (cases "run w e opts")
  case (Inr st)
  from run_Inr [OF Inr] have "sinkOK w st" by blast
  with Inr show ?thesis by (auto simp: generateOutputsZip_def endState_def sinkOK_def)
next
  case (Inl p)
  obtain x st where p: "p = (x, st)" by (cases p)
  from Inl p have g: "generateOutputsZip w e opts = Inl x" and es: "endState (run w e opts) = st"
    by (simp_all add: generateOutputsZip_def endState_def)
  from Inl p run_Inl [of w e opts x st]
  consider "x = SinkThrew" "sinkFailedLast w st" | "x \<noteq> SinkThrew" "sinkOK w st" by auto
  then show ?thesis
  proof cases
    case 1
    from 1(2) have ne: "events st \<noteq> []"
      and bad: "\<not> progressCb w (length (events st) - 1) (last (events st))"
      and good: "\<forall>k. Suc k < length (events st) \<longrightarrow> progressCb w k (events st ! k)"
      by (auto simp: sinkFailedLast_def)
    from ne bad have "\<exists>k<length (events st). \<not> progressCb w k (events st ! k)"
      by (intro exI [of _ "length (events st) - 1"]) (simp add: last_conv_nth)
    with 1(1) ne bad good show ?thesis unfolding g es by simp
  next
    case 2
    then show ?thesis unfolding g es by (auto simp: sinkOK_def)
  qed
qed

text \<open>
  An instance: a callback that rejects its second invocation, which is the progress
  event of unit 1.
\<close>

theorem sink_failure_aborts_witness:
  "events (endState (run failingWorld exampleEnv exampleOptions)) = [Downloading, Generating 1 3]
   \<and> generateOutputsZip failingWorld exampleEnv exampleOptions = Inl SinkThrew"
proof -
  have "\<exists>k<length (events (endState (run failingWorld exampleEnv exampleOptions))).
      \<not> progressCb failingWorld k (events (endState (run failingWorld exampleEnv exampleOptions)) ! k)"
    unfolding failing_events by (intro exI [of _ 1]) (simp add: failingWorld_def)
  with sink_failure_aborts [of failingWorld exampleEnv exampleOptions] failing_events
  show ?thesis by blast
qed

text \<open>
  The claim as stated fails there: the batch that completes with a resolving callback
  is aborted after unit 1 with the callback's error.
\<close>

theorem sink_failure_not_ignored_counterexample:
  "generateOutputsZip failingWorld exampleEnv exampleOptions = Inl SinkThrew
   \<and> events (endState (run failingWorld exampleEnv exampleOptions)) = [Downloading, Generating 1 3]
   \<and> (\<exists>z. generateOutputsZip exampleWorld exampleEnv exampleOptions = Inr z)"
proof -
  have "generateOutputsZip failingWorld exampleEnv exampleOptions = Inl SinkThrew"
    by (simp add: failingWorld_def example_defs run_evals string_evals upt_rec)
  moreover from example_completes obtain st where "run exampleWorld exampleEnv exampleOptions = Inr st" ..
  then have "\<exists>z. generateOutputsZip exampleWorld exampleEnv exampleOptions = Inr z"
    by (simp add: generateOutputsZip_def)
  ultimately show ?thesis using failing_events by blast
qed




text \<open>
  C5. In every unit of a completed run, the entries packed into the unit's inner
  archive have the names of the unpacked template's entries, in the same order; every
  entry but \<open>data.plab\<close> has the template's bytes; \<open>data.plab\<close> holds the serialized
  descriptor of the unit; and the packed archive is the unit's entry in the output
  collection. (The codec itself is fflate's, not code of the repository.)
\<close>

theorem inner_archive_keeps_template_entries:
  assumes "run w e opts = Inr st" "u \<in> set (units st)"
  shows "\<exists>tb files. fetchTemplateBytes w e = Inr tb \<and> unzipSync w tb = Some files
     \<and> map fst (outFiles u) = map fst files
     \<and> (\<forall>name. name \<noteq> str ''data.plab'' \<longrightarrow> map_of (outFiles u) name = map_of files name)
     \<and> map_of (outFiles u) (str ''data.plab'') = Some (jsonStringify w (proj u))
     \<and> plpU8 u = zipSync w (outFiles u)
     \<and> (fileName u, plpU8 u) \<in> set (outZipEntries st)"
proof -
  from run_Inr [OF assms(1)] obtain tb files d bp where
    f: "fetchTemplateBytes w e = Inr tb" "unzipSync w tb = Some files"
       "map_of files (str ''data.plab'') = Some d"
    and co: "coherent w opts files bp st"
    by blast
  from assms(2) obtain j where j: "j < length (units st)" "u = units st ! j"
    by (auto simp: in_set_conv_nth)
  with co have bu: "buildUnit w opts files bp (j * drawsPerUnit opts) (map fileName (take j (units st))) = Inr u"
    by (simp add: coherent_def)
  note o = buildUnit_fields(6,7) [OF bu]
  from f(3) have "str ''data.plab'' \<in> fst ` set files" by (force dest: map_of_SomeD)
  then have 1: "map fst (outFiles u) = map fst files" by (simp add: o(1) update_present_keys)
  have 2: "\<forall>name. name \<noteq> str ''data.plab'' \<longrightarrow> map_of (outFiles u) name = map_of files name"
    by (simp add: o(1) update_conv')
  have 3: "map_of (outFiles u) (str ''data.plab'') = Some (jsonStringify w (proj u))"
    by (simp add: o(1) update_conv')
  from co assms(2) have 4: "(fileName u, plpU8 u) \<in> set (outZipEntries st)"
    by (auto simp: coherent_def)
  from f 1 2 3 4 o(2) show ?thesis by blast
qed

text \<open>An instance: a unit of the example run, whose template has a second entry \<open>image.png\<close>.\<close>

theorem inner_archive_keeps_template_entries_witness:
  "\<exists>st u. run exampleWorld exampleEnv exampleOptions = Inr st \<and> u \<in> set (units st)
     \<and> map fst (outFiles u) = [str ''data.plab'', str ''image.png'']
     \<and> map_of (outFiles u) (str ''image.png'') = Some [2, 3]
     \<and> map_of (outFiles u) (str ''data.plab'') = Some (jsonStringify exampleWorld (proj u))"
proof -
  from example_completes obtain st where r: "run exampleWorld exampleEnv exampleOptions = Inr st" ..
  from run_Inr [OF r] have "length (units st) = 3" by (auto simp: exampleOptions_def)
  then obtain u where u: "u \<in> set (units st)" by (cases "units st") auto
  from inner_archive_keeps_template_entries [OF r u] obtain tb files where
    f: "fetchTemplateBytes exampleWorld exampleEnv = Inr tb" "unzipSync exampleWorld tb = Some files"
    and o: "map fst (outFiles u) = map fst files"
       "\<forall>name. name \<noteq> str ''data.plab'' \<longrightarrow> map_of (outFiles u) name = map_of files name"
       "map_of (outFiles u) (str ''data.plab'') = Some (jsonStringify exampleWorld (proj u))"
    by blast
  from f(1) have "tb = [80, 75]" by (simp add: fetchTemplateBytes_def example_defs string_evals)
  with f(2) have files: "files = [(str ''data.plab'', [1]), (str ''image.png'', [2, 3])]"
    by (simp add: exampleWorld_def)
  have "str ''image.png'' \<noteq> str ''data.plab''" by (simp add: str_def)
  with o files have "map fst (outFiles u) = [str ''data.plab'', str ''image.png'']"
    "map_of (outFiles u) (str ''image.png'') = Some [2, 3]"
    by (simp_all add: str_def)
  with r u o(3) show ?thesis by (intro exI [of _ st] exI [of _ u]) simp
qed




text \<open>
  C7. In every completed run of \<open>N\<close> units, the progress events are the \<open>Downloading\<close>
  notice, then one event for each unit index \<open>i\<close> in \<open>1..N\<close> with \<open>i = 1\<close>, \<open>i = N\<close> or
  \<open>i\<close> a multiple of \<open>max 1 (N div 10)\<close>, in order, then the \<open>Packing\<close> notice. For
  \<open>N = 23\<close> the indices are 1, 2, 4, 6, 8, 10, 12, 14, 16, 18, 20, 22, 23.
\<close>

theorem progress_cadence:
  assumes "run w e opts = Inr st"
  shows "events st = Downloading
           # map (\<lambda>i. Generating i (count opts))
               (filter (\<lambda>i. i = 1 \<or> i = count opts \<or> i mod max 1 (count opts div 10) = 0)
                  [1..<Suc (count opts)])
           @ [Packing]
     \<and> filter (\<lambda>i. emitsProgress i 23) [1..<24] = [1, 2, 4, 6, 8, 10, 12, 14, 16, 18, 20, 22, 23]"
proof -
  from run_Inr [OF assms] have "events st = Downloading # map (\<lambda>i. Generating i (count opts))
            (filter (\<lambda>i. emitsProgress i (count opts)) [1..<Suc (count opts)]) @ [Packing]"
    by blast
  then have 1: "events st = Downloading
           # map (\<lambda>i. Generating i (count opts))
               (filter (\<lambda>i. i = 1 \<or> i = count opts \<or> i mod max 1 (count opts div 10) = 0)
                  [1..<Suc (count opts)])
           @ [Packing]"
    by (simp only: emitsProgress_def)
  have u: "[1..<24] = [1::nat,2,3,4,5,6,7,8,9,10,11,12,13,14,15,16,17,18,19,20,21,22,23]"
    by (simp add: upt_rec)
  have m: "max 1 (23 div 10) = (2::nat)" by simp
  have e: "emitsProgress i 23 \<longleftrightarrow> i = 1 \<or> i = 23 \<or> i mod 2 = 0" for i
    unfolding emitsProgress_def m ..
  have 2: "filter (\<lambda>i. emitsProgress i 23) [1..<24] = [1, 2, 4, 6, 8, 10, 12, 14, 16, 18, 20, 22, 23]"
    unfolding u e by simp
  from 1 2 show ?thesis ..
qed

text \<open>An instance: the example run of three units.\<close>

theorem progress_cadence_witness:
  "\<exists>st. run exampleWorld exampleEnv exampleOptions = Inr st
     \<and> events st = [Downloading, Generating 1 3, Generating 2 3, Generating 3 3, Packing]"
proof -
  from example_completes obtain st where r: "run exampleWorld exampleEnv exampleOptions = Inr st" ..
  have "[1..<Suc 3] = [1, 2, 3]" by (simp add: upt_rec)
  with progress_cadence [OF r] have
    "events st = [Downloading, Generating 1 3, Generating 2 3, Generating 3 3, Packing]"
    by (simp add: exampleOptions_def)
  with r show ?thesis by (intro exI [of _ st]) simp
qed



text \<open>
  C9 (as amended). Provided the first progress notification resolves, the batch fails
  with a template-fetch error exactly when the source location is unset or empty, the
  fetch rejects (the source is unreachable), or the fetch returns a non-success status;
  where the fetch rejects a blank location, that is exactly when the location is unset
  or blank, the source is unreachable, or the status is a non-success one. In every
  such case no archive is returned. The copy of \<open>fetchTemplateBytes\<close> that trims the
  location fails exactly when the location is unset or blank, the fetch of the trimmed
  location rejects, or its status is a non-success one.
\<close>

theorem template_fetch_failure:
  assumes "progressCb w 0 Downloading"
  shows "((\<exists>x. generateOutputsZip w e opts = Inl x \<and> isTemplateFetchError x)
        \<longleftrightarrow> (case TEMPLATE_URL e of
               None \<Rightarrow> True
             | Some u \<Rightarrow> u = [] \<or> fetch w u = None \<or> (\<exists>res. fetch w u = Some res \<and> \<not> ok res)))
     \<and> ((\<forall>u. trim u = [] \<longrightarrow> fetch w u = None) \<longrightarrow>
          ((\<exists>x. generateOutputsZip w e opts = Inl x \<and> isTemplateFetchError x)
            \<longleftrightarrow> (case TEMPLATE_URL e of
                   None \<Rightarrow> True
                 | Some u \<Rightarrow> trim u = [] \<or> fetch w u = None \<or> (\<exists>res. fetch w u = Some res \<and> \<not> ok res))))
     \<and> ((\<exists>x. generateOutputsZip w e opts = Inl x \<and> isTemplateFetchError x)
          \<longrightarrow> (\<forall>z. generateOutputsZip w e opts \<noteq> Inr z))
     \<and> ((\<exists>x. fetchTemplateBytes_trimmed w e = Inl x \<and> isTemplateFetchError x)
          \<longleftrightarrow> (case TEMPLATE_URL e of
                 None \<Rightarrow> True
               | Some u \<Rightarrow> trim u = [] \<or> fetch w (trim u) = None
                          \<or> (\<exists>res. fetch w (trim u) = Some res \<and> \<not> ok res)))"
proof -
  note a = run_fetch_error [OF assms, of e opts, unfolded fetchTemplateBytes_fails]
  have b: "(\<exists>x. generateOutputsZip w e opts = Inl x \<and> isTemplateFetchError x)
            \<longleftrightarrow> (case TEMPLATE_URL e of
                   None \<Rightarrow> True
                 | Some u \<Rightarrow> trim u = [] \<or> fetch w u = None \<or> (\<exists>res. fetch w u = Some res \<and> \<not> ok res))"
    if "\<forall>u. trim u = [] \<longrightarrow> fetch w u = None"
  proof -
    have "trim u = [] \<or> fetch w u = None \<longleftrightarrow> u = [] \<or> fetch w u = None" for u
      using that by (auto simp: trim_def)
    then show ?thesis unfolding a by (auto split: option.splits)
  qed
  have c: "(\<exists>x. generateOutputsZip w e opts = Inl x \<and> isTemplateFetchError x)
          \<longrightarrow> (\<forall>z. generateOutputsZip w e opts \<noteq> Inr z)"
    by auto
  have d: "(\<exists>x. fetchTemplateBytes_trimmed w e = Inl x \<and> isTemplateFetchError x)
      \<longleftrightarrow> (\<exists>x. fetchTemplateBytes_trimmed w e = Inl x)"
    using fetchTemplateBytes_trimmed_error by blast
  from a b c d [unfolded fetchTemplateBytes_trimmed_fails] show ?thesis by blast
qed

text \<open>
  Three instances: a fetch that answers 404, and a blank location, for the pipeline and
  for the copy that trims.
\<close>

theorem template_fetch_failure_witness:
  "(\<exists>x. generateOutputsZip notFoundWorld exampleEnv exampleOptions = Inl x \<and> isTemplateFetchError x)
   \<and> (\<exists>x. generateOutputsZip exampleWorld \<lparr>TEMPLATE_URL = Some (str ''  '')\<rparr> exampleOptions = Inl x
          \<and> isTemplateFetchError x)
   \<and> (\<exists>x. fetchTemplateBytes_trimmed exampleWorld \<lparr>TEMPLATE_URL = Some (str ''  '')\<rparr> = Inl x
          \<and> isTemplateFetchError x)"
proof -
  have p1: "progressCb notFoundWorld 0 Downloading" by (simp add: notFoundWorld_def exampleWorld_def)
  have p2: "progressCb exampleWorld 0 Downloading" by (simp add: exampleWorld_def)
  have c1: "case TEMPLATE_URL exampleEnv of
              None \<Rightarrow> True
            | Some u \<Rightarrow> u = [] \<or> fetch notFoundWorld u = None
                       \<or> (\<exists>res. fetch notFoundWorld u = Some res \<and> \<not> ok res)"
    by (simp add: notFoundWorld_def exampleEnv_def string_evals)
  have blank: "\<forall>u. trim u = [] \<longrightarrow> fetch exampleWorld u = None" by (simp add: exampleWorld_def)
  have c2: "case TEMPLATE_URL \<lparr>TEMPLATE_URL = Some (str ''  '')\<rparr> of
              None \<Rightarrow> True
            | Some u \<Rightarrow> trim u = [] \<or> fetch exampleWorld u = None
                       \<or> (\<exists>res. fetch exampleWorld u = Some res \<and> \<not> ok res)"
    by (simp add: string_evals)
  have c3: "case TEMPLATE_URL \<lparr>TEMPLATE_URL = Some (str ''  '')\<rparr> of
              None \<Rightarrow> True
            | Some u \<Rightarrow> trim u = [] \<or> fetch exampleWorld (trim u) = None
                       \<or> (\<exists>res. fetch exampleWorld (trim u) = Some res \<and> \<not> ok res)"
    by (simp add: string_evals)
  from template_fetch_failure [OF p1, of exampleEnv exampleOptions] c1
  have a: "\<exists>x. generateOutputsZip notFoundWorld exampleEnv exampleOptions = Inl x \<and> isTemplateFetchError x"
    by blast
  from template_fetch_failure [OF p2, of "\<lparr>TEMPLATE_URL = Some (str ''  '')\<rparr>" exampleOptions] blank c2 c3
  have "\<exists>x. generateOutputsZip exampleWorld \<lparr>TEMPLATE_URL = Some (str ''  '')\<rparr> exampleOptions = Inl x
          \<and> isTemplateFetchError x"
    and "\<exists>x. fetchTemplateBytes_trimmed exampleWorld \<lparr>TEMPLATE_URL = Some (str ''  '')\<rparr> = Inl x
          \<and> isTemplateFetchError x"
    by blast+
  with a show ?thesis by blast
qed

text \<open>
  The claim as stated fails when the first notification rejects: the location is
  unset, and the batch fails with the callback's error, which is no template-fetch
  error.
\<close>

theorem sink_failure_before_fetch_counterexample:
  "TEMPLATE_URL \<lparr>TEMPLATE_URL = None\<rparr> = None
   \<and> generateOutputsZip (exampleWorld\<lparr>progressCb := (\<lambda>k m. False)\<rparr>) \<lparr>TEMPLATE_URL = None\<rparr> exampleOptions
       = Inl SinkThrew
   \<and> \<not> isTemplateFetchError SinkThrew"
  by (simp add: generateOutputsZip_def run_def notify_def initial_def)




end
